theory Spec2Isabelle
  imports Complex_Main "HOL-Library.Product_Lexorder" "HOL-Library.Char_ord"
    "HOL-Library.List_Lexorder"
begin

section \<open>Data model (storage-interface.ts)\<close>

text \<open>
  Timestamps are milliseconds since the epoch. The backends persist them as ISO-8601
  strings (\<^verbatim>\<open>toISOString\<close>), whose lexicographic order is the order of the
  instants, so every comparison of \<^verbatim>\<open>created_at\<close> is a comparison of integers here.

  JavaScript numbers (\<^verbatim>\<open>importance\<close>, vector components, sorted-set scores) are reals:
  the model computes exactly where the code's doubles round, and it has no overflow,
  underflow, NaN or infinity among the numbers it is given. The one place where the code
  leaves the finite numbers on such input, the division at the end of
  \<^verbatim>\<open>cosineSimilarity\<close>, has its own result type \<open>jsnum\<close> below; sums and products in
  \<^verbatim>\<open>cosineSimilarity\<close> are exact, so two scores that differ by less than the rounding of
  the code's arithmetic can compare differently in the code.
\<close>

type_synonym timestamp = int

text \<open>
  The argument of \<^verbatim>\<open>store\<close>:
  \<^verbatim>\<open>Omit<ProjectMemoryEntry, "id" | "createdAt" | "updatedAt" | "accessCount">\<close>.
  \<^verbatim>\<open>type\<close> is a string at run time (a TEXT column, a JSON string); \<^verbatim>\<open>metadata\<close>
  is opaque to the store and kept as its JSON text.
\<close>

record EntryInput =
  projectId :: string
  content :: string
  etype :: string
  importance :: real
  embedding :: "real list option"
  metadata :: "string option"
  tags :: "string list option"

record ProjectMemoryEntry = EntryInput +
  entry_id :: string
  createdAt :: timestamp
  updatedAt :: timestamp
  accessCount :: nat

text \<open>
  \<^verbatim>\<open>StorageConfig\<close>, and with it the one thing the backends read from their host
  besides the clock: \<open>setDateBack cfg now n\<close> is the time value that \<^verbatim>\<open>new Date(now)\<close>
  holds after \<^verbatim>\<open>setDate(getDate() - n)\<close>, which steps back \<open>n\<close> days of the host's local
  calendar (on a host whose zone has daylight saving the step is not always
  \<open>n\<close> times 24 hours).
\<close>

record StorageConfig =
  cfg_projectId :: string
  maxMemories :: nat
  ttlDays :: nat
  setDateBack :: "timestamp \<Rightarrow> nat \<Rightarrow> timestamp"

record MemorySearchOptions =
  opt_limit :: "nat option"
  opt_type :: "string option"
  opt_tags :: "string list option"
  opt_minImportance :: "real option"

text \<open>\<^verbatim>\<open>Partial<Pick<ProjectMemoryEntry, "content" | "importance" | "metadata" | "tags">>\<close>\<close>

record MemoryUpdates =
  upd_content :: "string option"
  upd_importance :: "real option"
  upd_metadata :: "string option"
  upd_tags :: "string list option"

datatype storage_error = UniqueConstraint | SqlSyntaxError | InvalidExpireTime

text \<open>\<^verbatim>\<open>options.limit || 10\<close>: an absent limit and the limit 0 both give 10.\<close>

definition effective_limit :: "MemorySearchOptions \<Rightarrow> nat" where
  "effective_limit opts = (case opt_limit opts of None \<Rightarrow> 10 | Some n \<Rightarrow> if n = 0 then 10 else n)"

text \<open>\<^verbatim>\<open>if (options.type)\<close>: an absent type and the empty string add no filter.\<close>

definition type_ok :: "MemorySearchOptions \<Rightarrow> ProjectMemoryEntry \<Rightarrow> bool" where
  "type_ok opts r = (case opt_type opts of None \<Rightarrow> True | Some ty \<Rightarrow> ty = [] \<or> etype r = ty)"

text \<open>\<^verbatim>\<open>if (options.minImportance)\<close>: an absent threshold and the threshold 0 add no filter.\<close>

definition importance_ok :: "MemorySearchOptions \<Rightarrow> ProjectMemoryEntry \<Rightarrow> bool" where
  "importance_ok opts r =
     (case opt_minImportance opts of None \<Rightarrow> True | Some m \<Rightarrow> m = 0 \<or> m \<le> importance r)"

text \<open>\<^verbatim>\<open>this.config.maxMemories || 10000\<close>\<close>

definition effective_maxMemories :: "'a StorageConfig_scheme \<Rightarrow> nat" where
  "effective_maxMemories cfg = (if maxMemories cfg = 0 then 10000 else maxMemories cfg)"

section \<open>Strings\<close>

text \<open>
  Characters are bytes; case folding is modelled on ASCII, where SQLite's \<^verbatim>\<open>LIKE\<close> and
  JavaScript's \<^verbatim>\<open>toLowerCase\<close> agree.
\<close>

definition ascii_lower :: "char \<Rightarrow> char" where
  "ascii_lower c =
     (case map_of (zip ''ABCDEFGHIJKLMNOPQRSTUVWXYZ'' ''abcdefghijklmnopqrstuvwxyz'') c of
        None \<Rightarrow> c
      | Some l \<Rightarrow> l)"

definition toLowerCase :: "string \<Rightarrow> string" where
  "toLowerCase s = map ascii_lower s"

fun startsWith :: "string \<Rightarrow> string \<Rightarrow> bool" where
  "startsWith s [] = True"
| "startsWith [] (q # qs) = False"
| "startsWith (c # cs) (q # qs) = (c = q \<and> startsWith cs qs)"

text \<open>\<^verbatim>\<open>s.includes(q)\<close>: \<open>q\<close> occurs in \<open>s\<close> as a contiguous substring.\<close>

fun js_includes :: "string \<Rightarrow> string \<Rightarrow> bool" where
  "js_includes [] q = (q = [])"
| "js_includes (c # cs) q = (startsWith (c # cs) q \<or> js_includes cs q)"

text \<open>
  SQLite's \<^verbatim>\<open>text LIKE pattern\<close> without an ESCAPE clause: \<^verbatim>\<open>%\<close> matches any run of
  characters, \<^verbatim>\<open>_\<close> any single character, every other character matches itself up to
  ASCII case. The first argument is the pattern.
\<close>

fun like_match :: "string \<Rightarrow> string \<Rightarrow> bool" where
  "like_match [] s = (s = [])"
| "like_match (p # ps) [] = (p = CHR ''%'' \<and> like_match ps [])"
| "like_match (p # ps) (c # cs) =
     (if p = CHR ''%'' then like_match ps (c # cs) \<or> like_match (p # ps) cs
      else (p = CHR ''_'' \<or> ascii_lower p = ascii_lower c) \<and> like_match ps cs)"

section \<open>Cosine similarity (both backends, the same text)\<close>

text \<open>
  The result of a JavaScript division: a finite number, an infinity or NaN.
\<close>

datatype jsnum = Number real | PosInfinity | NegInfinity | NaN

text \<open>\<^verbatim>\<open>x / y\<close> for finite \<open>x\<close> and a finite \<open>y\<close> that is not negative zero.\<close>

definition js_divide :: "real \<Rightarrow> real \<Rightarrow> jsnum" where
  "js_divide x y =
     (if y \<noteq> 0 then Number (x / y)
      else if x = 0 then NaN
      else if 0 < x then PosInfinity else NegInfinity)"

text \<open>
  The loop \<^verbatim>\<open>for (let i = 0; i < a.length; i++)\<close> with its three accumulators
  \<^verbatim>\<open>(dotProduct, normA, normB)\<close>. When \<open>b\<close> is shorter than \<open>a\<close>, \<^verbatim>\<open>b[i]\<close> is
  \<^verbatim>\<open>undefined\<close> and \<^verbatim>\<open>dotProduct\<close> and \<^verbatim>\<open>normB\<close> become NaN for good: that is the
  result \<open>None\<close>. Components of \<open>b\<close> beyond the length of \<open>a\<close> are never read.
\<close>

fun cosine_loop :: "real list \<Rightarrow> real list \<Rightarrow> real \<times> real \<times> real \<Rightarrow> (real \<times> real \<times> real) option" where
  "cosine_loop [] b acc = Some acc"
| "cosine_loop (x # a) [] acc = None"
| "cosine_loop (x # a) (y # b) (dotProduct, normA, normB) =
     cosine_loop a b (dotProduct + x * y, normA + x * x, normB + y * y)"

text \<open>\<^verbatim>\<open>return dotProduct / (Math.sqrt(normA) * Math.sqrt(normB))\<close>, with no test of the divisor.\<close>

definition cosineSimilarity :: "real list \<Rightarrow> real list \<Rightarrow> jsnum" where
  "cosineSimilarity a b =
     (case cosine_loop a b (0, 0, 0) of
        None \<Rightarrow> NaN
      | Some (dotProduct, normA, normB) \<Rightarrow> js_divide dotProduct (sqrt normA * sqrt normB))"

text \<open>The divisor of that last line, when the loop ends with numbers.\<close>

definition cosine_divisor :: "real list \<Rightarrow> real list \<Rightarrow> real option" where
  "cosine_divisor a b =
     map_option (\<lambda>(dotProduct, normA, normB). sqrt normA * sqrt normB) (cosine_loop a b (0, 0, 0))"

subsection \<open>\<^verbatim>\<open>scored.sort((a, b) => b.similarity - a.similarity)\<close>\<close>

fun js_minus :: "jsnum \<Rightarrow> jsnum \<Rightarrow> jsnum" where
  "js_minus (Number x) (Number y) = Number (x - y)"
| "js_minus NaN _ = NaN"
| "js_minus _ NaN = NaN"
| "js_minus PosInfinity PosInfinity = NaN"
| "js_minus NegInfinity NegInfinity = NaN"
| "js_minus PosInfinity _ = PosInfinity"
| "js_minus _ NegInfinity = PosInfinity"
| "js_minus NegInfinity _ = NegInfinity"
| "js_minus _ PosInfinity = NegInfinity"

fun js_positive :: "jsnum \<Rightarrow> bool" where
  "js_positive (Number x) = (0 < x)"
| "js_positive PosInfinity = True"
| "js_positive NegInfinity = False"
| "js_positive NaN = False"

text \<open>
  \<^verbatim>\<open>Array.prototype.sort\<close> is stable, and a comparator result of NaN counts as 0. When
  every score is a number the comparator is consistent and every stable sort, the
  engine's included, returns the list computed here (insertion from the right, an element
  moving behind those it compares greater than); so it does when every score is NaN, where
  every comparison is 0 and the list stays as it is. With NaN among numbers the comparator
  is not consistent, the language leaves the order to the implementation, and the engine's
  sort (a run detection followed by binary insertion) can return another list than this
  one. The theorems below use \<open>js_sort\<close> on lists of the first two kinds, and on one list
  of the third kind, of three scores with NaN in the middle: there the engine's run
  detection compares the second with the first and the third with the second, both
  results are NaN, and it keeps the list as it is, as \<open>js_sort\<close> does.
\<close>

fun js_insert :: "('a \<Rightarrow> 'a \<Rightarrow> jsnum) \<Rightarrow> 'a \<Rightarrow> 'a list \<Rightarrow> 'a list" where
  "js_insert cmp x [] = [x]"
| "js_insert cmp x (y # ys) =
     (if js_positive (cmp x y) then y # js_insert cmp x ys else x # y # ys)"

definition js_sort :: "('a \<Rightarrow> 'a \<Rightarrow> jsnum) \<Rightarrow> 'a list \<Rightarrow> 'a list" where
  "js_sort cmp xs = foldr (js_insert cmp) xs []"

definition by_similarity_desc :: "'a \<times> jsnum \<Rightarrow> 'a \<times> jsnum \<Rightarrow> jsnum" where
  "by_similarity_desc a b = js_minus (snd b) (snd a)"

section \<open>The SQLite backend (sqlite-storage.ts)\<close>

text \<open>
  The table \<^verbatim>\<open>project_memories\<close> is the list of its rows in insertion order. A row has
  the columns of \<open>ProjectMemoryEntry\<close>; the JSON text of \<^verbatim>\<open>embedding\<close> and \<^verbatim>\<open>tags\<close> is
  kept parsed (\<^verbatim>\<open>rowToEntry\<close> parses back what \<^verbatim>\<open>store\<close> serialised, and NULL is
  \<open>None\<close>), so \<^verbatim>\<open>rowToEntry\<close> is the identity. \<^verbatim>\<open>ORDER BY\<close> is a stable sort of the
  rows that pass the \<^verbatim>\<open>WHERE\<close> clause; SQL leaves the order of rows that agree on every
  sort key open, and no theorem below depends on it.
\<close>

type_synonym table = "ProjectMemoryEntry list"

definition in_project :: "'a StorageConfig_scheme \<Rightarrow> ProjectMemoryEntry \<Rightarrow> bool" where
  "in_project cfg r = (projectId r = cfg_projectId cfg)"

definition sqlite_getCount :: "'a StorageConfig_scheme \<Rightarrow> table \<Rightarrow> nat" where
  "sqlite_getCount cfg t = length (filter (in_project cfg) t)"

definition sqlite_get :: "'a StorageConfig_scheme \<Rightarrow> string \<Rightarrow> table \<Rightarrow> ProjectMemoryEntry option" where
  "sqlite_get cfg i t = find (\<lambda>r. entry_id r = i \<and> in_project cfg r) t"

text \<open>\<^verbatim>\<open>UPDATE ... SET access_count = access_count + 1, updated_at = ? WHERE id = ?\<close>\<close>

definition sqlite_incrementAccess :: "timestamp \<Rightarrow> string \<Rightarrow> table \<Rightarrow> table" where
  "sqlite_incrementAccess now i t =
     map (\<lambda>r. if entry_id r = i then r\<lparr>updatedAt := now, accessCount := accessCount r + 1\<rparr> else r) t"

text \<open>
  The fields an update supplies replace the stored ones (\<^verbatim>\<open>{...entry, ...updates}\<close> on
  Redis, one \<^verbatim>\<open>SET column = ?\<close> per supplied field on SQLite), and \<^verbatim>\<open>updatedAt\<close> is set
  to the clock.
\<close>

definition merge_updates :: "MemoryUpdates \<Rightarrow> ProjectMemoryEntry \<Rightarrow> ProjectMemoryEntry" where
  "merge_updates u r =
     r\<lparr>content := (case upd_content u of None \<Rightarrow> content r | Some c \<Rightarrow> c),
       importance := (case upd_importance u of None \<Rightarrow> importance r | Some i \<Rightarrow> i),
       metadata := (case upd_metadata u of None \<Rightarrow> metadata r | Some m \<Rightarrow> Some m),
       tags := (case upd_tags u of None \<Rightarrow> tags r | Some ts \<Rightarrow> Some ts)\<rparr>"

definition apply_updates :: "timestamp \<Rightarrow> MemoryUpdates \<Rightarrow> ProjectMemoryEntry \<Rightarrow> ProjectMemoryEntry" where
  "apply_updates now u r = (merge_updates u r)\<lparr>updatedAt := now\<rparr>"

text \<open>\<^verbatim>\<open>UPDATE ... SET updated_at = ?, ... WHERE id = ? AND project_id = ?\<close>\<close>

definition sqlite_update :: "'a StorageConfig_scheme \<Rightarrow> timestamp \<Rightarrow> string \<Rightarrow> MemoryUpdates \<Rightarrow> table \<Rightarrow> table" where
  "sqlite_update cfg now i u t =
     map (\<lambda>r. if entry_id r = i \<and> in_project cfg r then apply_updates now u r else r) t"

definition sqlite_delete :: "'a StorageConfig_scheme \<Rightarrow> string \<Rightarrow> table \<Rightarrow> table" where
  "sqlite_delete cfg i t = filter (\<lambda>r. \<not> (entry_id r = i \<and> in_project cfg r)) t"

definition sqlite_clear :: "'a StorageConfig_scheme \<Rightarrow> table \<Rightarrow> table" where
  "sqlite_clear cfg t = filter (\<lambda>r. \<not> in_project cfg r) t"

subsection \<open>\<^verbatim>\<open>enforceMemoryLimits\<close>\<close>

text \<open>
  First block: \<^verbatim>\<open>if (count > maxMemories)\<close>, delete the rows whose id is among the first
  \<^verbatim>\<open>count - maxMemories + 100\<close> of the project's rows in
  \<^verbatim>\<open>ORDER BY importance ASC, access_count ASC, created_at ASC\<close>.
\<close>

definition eviction_order :: "ProjectMemoryEntry \<Rightarrow> real \<times> nat \<times> timestamp" where
  "eviction_order r = (importance r, accessCount r, createdAt r)"

definition eviction_victims :: "'a StorageConfig_scheme \<Rightarrow> table \<Rightarrow> ProjectMemoryEntry list" where
  "eviction_victims cfg t =
     (let count = sqlite_getCount cfg t; maxMemories = effective_maxMemories cfg
      in if count > maxMemories
         then take (count - maxMemories + 100) (sort_key eviction_order (filter (in_project cfg) t))
         else [])"

definition evict_over_limit :: "'a StorageConfig_scheme \<Rightarrow> table \<Rightarrow> table" where
  "evict_over_limit cfg t =
     filter (\<lambda>r. entry_id r \<notin> entry_id ` set (eviction_victims cfg t)) t"

text \<open>
  Second block: \<^verbatim>\<open>if (this.config.ttlDays)\<close>, delete the project's rows with
  \<^verbatim>\<open>created_at < cutoff AND importance < 0.8\<close>, where the cutoff is the clock after
  \<^verbatim>\<open>cutoffDate.setDate(cutoffDate.getDate() - this.config.ttlDays)\<close>.
\<close>

definition cutoffDate :: "'a StorageConfig_scheme \<Rightarrow> timestamp \<Rightarrow> timestamp" where
  "cutoffDate cfg now = setDateBack cfg now (ttlDays cfg)"

definition expired_row :: "'a StorageConfig_scheme \<Rightarrow> timestamp \<Rightarrow> ProjectMemoryEntry \<Rightarrow> bool" where
  "expired_row cfg now r =
     (in_project cfg r \<and> createdAt r < cutoffDate cfg now \<and> importance r < 0.8)"

definition delete_expired :: "'a StorageConfig_scheme \<Rightarrow> timestamp \<Rightarrow> table \<Rightarrow> table" where
  "delete_expired cfg now t =
     (if ttlDays cfg \<noteq> 0 then filter (\<lambda>r. \<not> expired_row cfg now r) t else t)"

definition sqlite_enforceMemoryLimits :: "'a StorageConfig_scheme \<Rightarrow> timestamp \<Rightarrow> table \<Rightarrow> table" where
  "sqlite_enforceMemoryLimits cfg now t = delete_expired cfg now (evict_over_limit cfg t)"

subsection \<open>\<^verbatim>\<open>store\<close>\<close>

text \<open>
  \<open>newId\<close> is the value of \<^verbatim>\<open>uuidv4()\<close> and \<open>now\<close> the clock. The column \<^verbatim>\<open>id\<close> is the
  primary key, so the INSERT of an id already in the table raises.
\<close>

definition new_entry :: "timestamp \<Rightarrow> string \<Rightarrow> 'a EntryInput_scheme \<Rightarrow> ProjectMemoryEntry" where
  "new_entry now newId e =
     \<lparr>projectId = projectId e, content = content e, etype = etype e,
      importance = importance e, embedding = embedding e, metadata = metadata e,
      tags = tags e, entry_id = newId, createdAt = now, updatedAt = now, accessCount = 0\<rparr>"

definition sqlite_store ::
  "'a StorageConfig_scheme \<Rightarrow> timestamp \<Rightarrow> string \<Rightarrow> 'b EntryInput_scheme \<Rightarrow> table \<Rightarrow> storage_error + table \<times> string" where
  "sqlite_store cfg now newId e t =
     (if newId \<in> entry_id ` set t then Inl UniqueConstraint
      else Inr (sqlite_enforceMemoryLimits cfg now (t @ [new_entry now newId e]), newId))"

subsection \<open>Queries\<close>

text \<open>\<^verbatim>\<open>ORDER BY importance DESC, access_count DESC\<close>\<close>

definition important_order :: "ProjectMemoryEntry \<Rightarrow> real \<times> int" where
  "important_order r = (- importance r, - int (accessCount r))"

text \<open>\<^verbatim>\<open>ORDER BY importance DESC, access_count DESC, created_at DESC\<close>\<close>

definition keyword_order :: "ProjectMemoryEntry \<Rightarrow> real \<times> int \<times> int" where
  "keyword_order r = (- importance r, - int (accessCount r), - createdAt r)"

text \<open>\<^verbatim>\<open>ORDER BY importance DESC, created_at DESC\<close>\<close>

definition listing_order :: "ProjectMemoryEntry \<Rightarrow> real \<times> int" where
  "listing_order r = (- importance r, - createdAt r)"

definition embedding_of :: "ProjectMemoryEntry \<Rightarrow> real list" where
  "embedding_of r = (case embedding r of Some v \<Rightarrow> v | None \<Rightarrow> [])"

text \<open>
  The candidate rows of \<^verbatim>\<open>searchByEmbedding\<close>:
  \<^verbatim>\<open>WHERE project_id = ? AND embedding IS NOT NULL [AND type = ?] [AND importance >= ?]
  ORDER BY importance DESC, access_count DESC LIMIT 100\<close>.
\<close>

definition sqlite_candidates :: "'a StorageConfig_scheme \<Rightarrow> MemorySearchOptions \<Rightarrow> table \<Rightarrow> ProjectMemoryEntry list" where
  "sqlite_candidates cfg opts t =
     take 100 (sort_key important_order
       (filter (\<lambda>r. in_project cfg r \<and> embedding r \<noteq> None \<and> type_ok opts r \<and> importance_ok opts r) t))"

definition sqlite_searchByEmbedding ::
  "'a StorageConfig_scheme \<Rightarrow> timestamp \<Rightarrow> real list \<Rightarrow> MemorySearchOptions \<Rightarrow> table \<Rightarrow> table \<times> ProjectMemoryEntry list" where
  "sqlite_searchByEmbedding cfg now q opts t =
     (let scored = map (\<lambda>row. (row, cosineSimilarity q (embedding_of row))) (sqlite_candidates cfg opts t);
          topResults = take (effective_limit opts) (js_sort by_similarity_desc scored)
      in (fold (\<lambda>(row, similarity). sqlite_incrementAccess now (entry_id row)) topResults t,
          map fst topResults))"

text \<open>
  \<^verbatim>\<open>WHERE project_id = ? AND content LIKE '%query%' [AND type = ?] [AND importance >= ?]
  ORDER BY importance DESC, access_count DESC, created_at DESC LIMIT ?\<close>
\<close>

definition keyword_pattern :: "string \<Rightarrow> string" where
  "keyword_pattern query = CHR ''%'' # query @ [CHR ''%'']"

definition sqlite_keyword_rows :: "'a StorageConfig_scheme \<Rightarrow> string \<Rightarrow> MemorySearchOptions \<Rightarrow> table \<Rightarrow> ProjectMemoryEntry list" where
  "sqlite_keyword_rows cfg query opts t =
     take (effective_limit opts) (sort_key keyword_order
       (filter (\<lambda>r. in_project cfg r \<and> like_match (keyword_pattern query) (content r)
                   \<and> type_ok opts r \<and> importance_ok opts r) t))"

definition sqlite_searchByKeyword ::
  "'a StorageConfig_scheme \<Rightarrow> timestamp \<Rightarrow> string \<Rightarrow> MemorySearchOptions \<Rightarrow> table \<Rightarrow> table \<times> ProjectMemoryEntry list" where
  "sqlite_searchByKeyword cfg now query opts t =
     (let rows = sqlite_keyword_rows cfg query opts t
      in (fold (\<lambda>row. sqlite_incrementAccess now (entry_id row)) rows t, rows))"

definition sqlite_getByType :: "'a StorageConfig_scheme \<Rightarrow> string \<Rightarrow> nat \<Rightarrow> table \<Rightarrow> ProjectMemoryEntry list" where
  "sqlite_getByType cfg ty n t =
     take n (sort_key listing_order (filter (\<lambda>r. in_project cfg r \<and> etype r = ty) t))"

definition sqlite_getRecent :: "'a StorageConfig_scheme \<Rightarrow> nat \<Rightarrow> table \<Rightarrow> ProjectMemoryEntry list" where
  "sqlite_getRecent cfg n t =
     take n (sort_key (\<lambda>r. - createdAt r) (filter (in_project cfg) t))"

definition sqlite_getImportant :: "'a StorageConfig_scheme \<Rightarrow> nat \<Rightarrow> table \<Rightarrow> ProjectMemoryEntry list" where
  "sqlite_getImportant cfg n t =
     take n (sort_key important_order (filter (in_project cfg) t))"

text \<open>
  \<^verbatim>\<open>getByTags\<close> matches \<^verbatim>\<open>tags LIKE '%"tag"%'\<close> for some requested tag against the JSON
  text of the row's tag array; a row whose \<^verbatim>\<open>tags\<close> is NULL matches nothing. With no
  tag requested the statement reads \<^verbatim>\<open>AND ()\<close> and is rejected.
\<close>

definition join :: "string \<Rightarrow> string list \<Rightarrow> string" where
  "join sep xs = (case xs of [] \<Rightarrow> [] | y # ys \<Rightarrow> y @ concat (map (\<lambda>z. sep @ z) ys))"

definition hex_digit :: "nat \<Rightarrow> char" where
  "hex_digit n = (if n < 10 then char_of (48 + n) else char_of (87 + n))"

definition json_escape_char :: "char \<Rightarrow> string" where
  "json_escape_char c =
     (let n = (of_char c :: nat) in
      if c = CHR 0x22 then [CHR 0x5C, CHR 0x22]
      else if c = CHR 0x5C then [CHR 0x5C, CHR 0x5C]
      else if c = CHR 0x08 then [CHR 0x5C, CHR ''b'']
      else if c = CHR 0x09 then [CHR 0x5C, CHR ''t'']
      else if c = CHR 0x0A then [CHR 0x5C, CHR ''n'']
      else if c = CHR 0x0C then [CHR 0x5C, CHR ''f'']
      else if c = CHR 0x0D then [CHR 0x5C, CHR ''r'']
      else if n < 32 then [CHR 0x5C, CHR ''u'', CHR ''0'', CHR ''0'', hex_digit (n div 16), hex_digit (n mod 16)]
      else [c])"

definition json_string :: "string \<Rightarrow> string" where
  "json_string s = CHR 0x22 # concat (map json_escape_char s) @ [CHR 0x22]"

definition json_string_array :: "string list \<Rightarrow> string" where
  "json_string_array ts = ''['' @ join '','' (map json_string ts) @ '']''"

definition tag_pattern :: "string \<Rightarrow> string" where
  "tag_pattern tag = CHR ''%'' # CHR 0x22 # tag @ [CHR 0x22, CHR ''%'']"

definition row_has_tag :: "string list \<Rightarrow> ProjectMemoryEntry \<Rightarrow> bool" where
  "row_has_tag wanted r =
     (case tags r of
        None \<Rightarrow> False
      | Some ts \<Rightarrow> list_ex (\<lambda>tag. like_match (tag_pattern tag) (json_string_array ts)) wanted)"

definition sqlite_getByTags ::
  "'a StorageConfig_scheme \<Rightarrow> string list \<Rightarrow> nat \<Rightarrow> table \<Rightarrow> storage_error + ProjectMemoryEntry list" where
  "sqlite_getByTags cfg wanted n t =
     (if wanted = [] then Inl SqlSyntaxError
      else Inr (take n (sort_key listing_order
             (filter (\<lambda>r. in_project cfg r \<and> row_has_tag wanted r) t))))"

section \<open>The Redis backend (redis-storage.ts)\<close>

text \<open>
  The server holds string keys with an optional expiry time and sorted sets. The three
  kinds of key the backend writes (\<^verbatim>\<open>:entry:\<close>, \<^verbatim>\<open>:embedding:\<close>, \<^verbatim>\<open>:index:\<close> after the
  prefix) are kept in three maps, each addressed by the full key text. A string value is
  kept parsed: the entry as \<^verbatim>\<open>JSON.parse\<close> returns it, the vector as a list.
  A key whose expiry time has been reached reads as absent.
\<close>

record RedisStorageConfig = StorageConfig +
  keyPrefix :: string

type_synonym zset = "(string \<times> real) list"

record redis_db =
  entries :: "string \<Rightarrow> (ProjectMemoryEntry \<times> timestamp option) option"
  embeddings :: "string \<Rightarrow> (real list \<times> timestamp option) option"
  zsets :: "string \<Rightarrow> zset"

definition redis_prefix :: "RedisStorageConfig \<Rightarrow> string" where
  "redis_prefix cfg = keyPrefix cfg @ '':'' @ cfg_projectId cfg"

definition memoryKey :: "RedisStorageConfig \<Rightarrow> string \<Rightarrow> string" where
  "memoryKey cfg i = redis_prefix cfg @ '':entry:'' @ i"

definition indexKey :: "RedisStorageConfig \<Rightarrow> string \<Rightarrow> string" where
  "indexKey cfg indexType = redis_prefix cfg @ '':index:'' @ indexType"

definition embeddingKey :: "RedisStorageConfig \<Rightarrow> string \<Rightarrow> string" where
  "embeddingKey cfg i = redis_prefix cfg @ '':embedding:'' @ i"

subsection \<open>Server commands\<close>

text \<open>GET: the value of a key that exists and has not expired at \<open>now\<close>.\<close>

definition live :: "timestamp \<Rightarrow> ('v \<times> timestamp option) option \<Rightarrow> 'v option" where
  "live now x =
     (case x of
        None \<Rightarrow> None
      | Some (v, None) \<Rightarrow> Some v
      | Some (v, Some expiry) \<Rightarrow> if now < expiry then Some v else None)"

text \<open>SET key value EX seconds\<close>

definition set_ex ::
  "timestamp \<Rightarrow> string \<Rightarrow> 'v \<Rightarrow> nat \<Rightarrow> (string \<Rightarrow> ('v \<times> timestamp option) option) \<Rightarrow> (string \<Rightarrow> ('v \<times> timestamp option) option)" where
  "set_ex now k v seconds m = m(k \<mapsto> (v, Some (now + int seconds * 1000)))"

text \<open>SET key value KEEPTTL: a key that exists keeps its expiry time, a new key has none.\<close>

definition set_keepttl ::
  "timestamp \<Rightarrow> string \<Rightarrow> 'v \<Rightarrow> (string \<Rightarrow> ('v \<times> timestamp option) option) \<Rightarrow> (string \<Rightarrow> ('v \<times> timestamp option) option)" where
  "set_keepttl now k v m =
     m(k \<mapsto> (v, case m k of
                   Some (old, Some expiry) \<Rightarrow> if now < expiry then Some expiry else None
                 | _ \<Rightarrow> None))"

text \<open>ZADD key score member: the member gets the score, whether it is new or not.\<close>

definition zadd :: "real \<Rightarrow> string \<Rightarrow> zset \<Rightarrow> zset" where
  "zadd score member z = (member, score) # filter (\<lambda>(m, s). m \<noteq> member) z"

definition zrem :: "string \<Rightarrow> zset \<Rightarrow> zset" where
  "zrem member z = filter (\<lambda>(m, s). m \<noteq> member) z"

definition zcard :: "zset \<Rightarrow> nat" where
  "zcard z = length z"

text \<open>The members in rank order: by score, members of equal score by their bytes.\<close>

definition zmembers :: "zset \<Rightarrow> string list" where
  "zmembers z = map fst (sort_key (\<lambda>(m, s). (s, m)) z)"

text \<open>
  The index range of ZRANGE and ZREVRANGE: both ends inclusive, a negative index counts
  from the end.
\<close>

definition redis_range :: "'a list \<Rightarrow> int \<Rightarrow> int \<Rightarrow> 'a list" where
  "redis_range xs start stop =
     (let len = int (length xs);
          s = max 0 (if start < 0 then start + len else start);
          e = min (len - 1) (if stop < 0 then stop + len else stop)
      in if s > e then [] else take (nat (e - s + 1)) (drop (nat s) xs))"

definition zrange :: "zset \<Rightarrow> int \<Rightarrow> int \<Rightarrow> string list" where
  "zrange z start stop = redis_range (zmembers z) start stop"

definition zrevrange :: "zset \<Rightarrow> int \<Rightarrow> int \<Rightarrow> string list" where
  "zrevrange z start stop = redis_range (rev (zmembers z)) start stop"

definition index_update :: "RedisStorageConfig \<Rightarrow> string \<Rightarrow> (zset \<Rightarrow> zset) \<Rightarrow> redis_db \<Rightarrow> redis_db" where
  "index_update cfg indexType f db =
     db\<lparr>zsets := (zsets db)(indexKey cfg indexType := f (zsets db (indexKey cfg indexType)))\<rparr>"

definition index_of :: "RedisStorageConfig \<Rightarrow> string \<Rightarrow> redis_db \<Rightarrow> zset" where
  "index_of cfg indexType db = zsets db (indexKey cfg indexType)"

subsection \<open>Entries and indexes\<close>

definition redis_get :: "RedisStorageConfig \<Rightarrow> timestamp \<Rightarrow> string \<Rightarrow> redis_db \<Rightarrow> ProjectMemoryEntry option" where
  "redis_get cfg now i db =
     (case live now (entries db (memoryKey cfg i)) of
        None \<Rightarrow> None
      | Some entry \<Rightarrow>
          (case live now (embeddings db (embeddingKey cfg i)) of
             None \<Rightarrow> Some entry
           | Some v \<Rightarrow> Some (entry\<lparr>embedding := Some v\<rparr>)))"

text \<open>\<^verbatim>\<open>addToIndexes\<close>, with \<^verbatim>\<open>score = Date.now()\<close>\<close>

definition addToIndexes :: "RedisStorageConfig \<Rightarrow> timestamp \<Rightarrow> ProjectMemoryEntry \<Rightarrow> redis_db \<Rightarrow> redis_db" where
  "addToIndexes cfg now entry db =
     (let score = real_of_int now;
          db1 = index_update cfg (''type:'' @ etype entry) (zadd score (entry_id entry)) db;
          db2 = index_update cfg ''importance'' (zadd (importance entry * 1000) (entry_id entry)) db1;
          db3 = index_update cfg ''recent'' (zadd score (entry_id entry)) db2;
          db4 = (case tags entry of
                   None \<Rightarrow> db3
                 | Some ts \<Rightarrow> fold (\<lambda>tag. index_update cfg (''tag:'' @ tag) (zadd score (entry_id entry))) ts db3)
      in index_update cfg ''all'' (zadd score (entry_id entry)) db4)"

definition removeFromIndexes :: "RedisStorageConfig \<Rightarrow> ProjectMemoryEntry \<Rightarrow> redis_db \<Rightarrow> redis_db" where
  "removeFromIndexes cfg entry db =
     (let db1 = index_update cfg (''type:'' @ etype entry) (zrem (entry_id entry)) db;
          db2 = index_update cfg ''importance'' (zrem (entry_id entry)) db1;
          db3 = index_update cfg ''recent'' (zrem (entry_id entry)) db2;
          db4 = index_update cfg ''all'' (zrem (entry_id entry)) db3
      in case tags entry of
           None \<Rightarrow> db4
         | Some ts \<Rightarrow> fold (\<lambda>tag. index_update cfg (''tag:'' @ tag) (zrem (entry_id entry))) ts db4)"

definition redis_delete :: "RedisStorageConfig \<Rightarrow> timestamp \<Rightarrow> string \<Rightarrow> redis_db \<Rightarrow> redis_db" where
  "redis_delete cfg now i db =
     (case redis_get cfg now i db of
        None \<Rightarrow> db
      | Some entry \<Rightarrow>
          (let db1 = removeFromIndexes cfg entry db;
               db2 = db1\<lparr>entries := (entries db1)(memoryKey cfg i := None)\<rparr>
           in db2\<lparr>embeddings := (embeddings db2)(embeddingKey cfg i := None)\<rparr>))"

definition redis_incrementAccess :: "RedisStorageConfig \<Rightarrow> timestamp \<Rightarrow> string \<Rightarrow> redis_db \<Rightarrow> redis_db" where
  "redis_incrementAccess cfg now i db =
     (case redis_get cfg now i db of
        None \<Rightarrow> db
      | Some entry \<Rightarrow>
          db\<lparr>entries := set_keepttl now (memoryKey cfg i)
                (entry\<lparr>accessCount := accessCount entry + 1, updatedAt := now, embedding := None\<rparr>)
                (entries db)\<rparr>)"

definition redis_update :: "RedisStorageConfig \<Rightarrow> timestamp \<Rightarrow> string \<Rightarrow> MemoryUpdates \<Rightarrow> redis_db \<Rightarrow> redis_db" where
  "redis_update cfg now i u db =
     (case redis_get cfg now i db of
        None \<Rightarrow> db
      | Some entry \<Rightarrow>
          (let db1 = (if upd_tags u \<noteq> None then removeFromIndexes cfg entry db else db);
               updatedEntry = (apply_updates now u entry)\<lparr>embedding := None\<rparr>;
               db2 = db1\<lparr>entries := set_keepttl now (memoryKey cfg i) updatedEntry (entries db1)\<rparr>;
               db3 = (case upd_importance u of
                        None \<Rightarrow> db2
                      | Some imp \<Rightarrow> index_update cfg ''importance'' (zadd (imp * 1000) i) db2)
           in if upd_tags u \<noteq> None then addToIndexes cfg now (merge_updates u entry) db3 else db3))"

definition redis_getCount :: "RedisStorageConfig \<Rightarrow> redis_db \<Rightarrow> nat" where
  "redis_getCount cfg db = zcard (index_of cfg ''all'' db)"

text \<open>
  \<^verbatim>\<open>enforceMemoryLimits\<close>: the ids of ranks \<^verbatim>\<open>0 .. toDelete - 1\<close> of the importance
  index are passed to \<^verbatim>\<open>delete\<close> one after the other.
\<close>

definition redis_eviction_ids :: "RedisStorageConfig \<Rightarrow> redis_db \<Rightarrow> string list" where
  "redis_eviction_ids cfg db =
     (let count = redis_getCount cfg db; maxMemories = effective_maxMemories cfg
      in if count > maxMemories
         then zrange (index_of cfg ''importance'' db) 0 (int (count - maxMemories + 100) - 1)
         else [])"

definition redis_enforceMemoryLimits :: "RedisStorageConfig \<Rightarrow> timestamp \<Rightarrow> redis_db \<Rightarrow> redis_db" where
  "redis_enforceMemoryLimits cfg now db = fold (redis_delete cfg now) (redis_eviction_ids cfg db) db"

text \<open>
  \<^verbatim>\<open>store\<close>: both string keys are written with \<^verbatim>\<open>EX ttlDays * 24 * 60 * 60\<close>; the server
  rejects an expiry of 0 seconds, and then nothing has been written.
\<close>

definition ttl_seconds :: "'a StorageConfig_scheme \<Rightarrow> nat" where
  "ttl_seconds cfg = ttlDays cfg * 24 * 60 * 60"

definition redis_store ::
  "RedisStorageConfig \<Rightarrow> timestamp \<Rightarrow> string \<Rightarrow> 'b EntryInput_scheme \<Rightarrow> redis_db \<Rightarrow> storage_error + redis_db \<times> string" where
  "redis_store cfg now newId e db =
     (if ttl_seconds cfg = 0 then Inl InvalidExpireTime
      else
        (let fullEntry = new_entry now newId e;
             db1 = db\<lparr>entries := set_ex now (memoryKey cfg newId) (fullEntry\<lparr>embedding := None\<rparr>)
                                   (ttl_seconds cfg) (entries db)\<rparr>;
             db2 = (case embedding e of
                      None \<Rightarrow> db1
                    | Some v \<Rightarrow> db1\<lparr>embeddings := set_ex now (embeddingKey cfg newId) v
                                                    (ttl_seconds cfg) (embeddings db1)\<rparr>);
             db3 = addToIndexes cfg now fullEntry db2
         in Inr (redis_enforceMemoryLimits cfg now db3, newId)))"

subsection \<open>Queries\<close>

definition search_index :: "RedisStorageConfig \<Rightarrow> MemorySearchOptions \<Rightarrow> redis_db \<Rightarrow> zset" where
  "search_index cfg opts db =
     (case opt_type opts of
        None \<Rightarrow> index_of cfg ''all'' db
      | Some ty \<Rightarrow> if ty = [] then index_of cfg ''all'' db else index_of cfg (''type:'' @ ty) db)"

text \<open>
  The first loop of \<^verbatim>\<open>searchByEmbedding\<close>: an id without a stored vector is skipped, and
  so is one whose entry is below \<^verbatim>\<open>minImportance\<close>.
\<close>

definition redis_score :: "RedisStorageConfig \<Rightarrow> timestamp \<Rightarrow> real list \<Rightarrow> MemorySearchOptions \<Rightarrow> redis_db \<Rightarrow> string \<Rightarrow> (string \<times> jsnum) option" where
  "redis_score cfg now q opts db i =
     (case live now (embeddings db (embeddingKey cfg i)) of
        None \<Rightarrow> None
      | Some storedEmbedding \<Rightarrow>
          (case redis_get cfg now i db of
             None \<Rightarrow> Some (i, cosineSimilarity q storedEmbedding)
           | Some entry \<Rightarrow>
               if importance_ok opts entry then Some (i, cosineSimilarity q storedEmbedding)
               else None))"

definition redis_scored :: "RedisStorageConfig \<Rightarrow> timestamp \<Rightarrow> real list \<Rightarrow> MemorySearchOptions \<Rightarrow> redis_db \<Rightarrow> (string \<times> jsnum) list" where
  "redis_scored cfg now q opts db =
     List.map_filter (redis_score cfg now q opts db) (zrevrange (search_index cfg opts db) 0 100)"

text \<open>
  The second loop: \<^verbatim>\<open>get\<close> each id in turn; an entry that is found has its access
  counted and is returned as it was read.
\<close>

fun surface :: "RedisStorageConfig \<Rightarrow> timestamp \<Rightarrow> string list \<Rightarrow> redis_db \<Rightarrow> redis_db \<times> ProjectMemoryEntry list" where
  "surface cfg now [] db = (db, [])"
| "surface cfg now (i # ids) db =
     (case redis_get cfg now i db of
        None \<Rightarrow> surface cfg now ids db
      | Some entry \<Rightarrow>
          (let (db', results) = surface cfg now ids (redis_incrementAccess cfg now i db)
           in (db', entry # results)))"

definition redis_searchByEmbedding ::
  "RedisStorageConfig \<Rightarrow> timestamp \<Rightarrow> real list \<Rightarrow> MemorySearchOptions \<Rightarrow> redis_db \<Rightarrow> redis_db \<times> ProjectMemoryEntry list" where
  "redis_searchByEmbedding cfg now q opts db =
     surface cfg now
       (map fst (take (effective_limit opts) (js_sort by_similarity_desc (redis_scored cfg now q opts db))))
       db"

text \<open>
  The loop of \<^verbatim>\<open>searchByKeyword\<close> over the ids of ranks 0 to 500 of the index, most
  recent first, with the results so far; it stops once \<^verbatim>\<open>limit\<close> results are found.
\<close>

fun keyword_scan ::
  "RedisStorageConfig \<Rightarrow> timestamp \<Rightarrow> string \<Rightarrow> MemorySearchOptions \<Rightarrow> string list \<Rightarrow> ProjectMemoryEntry list \<Rightarrow> redis_db \<Rightarrow> redis_db \<times> ProjectMemoryEntry list" where
  "keyword_scan cfg now queryLower opts [] results db = (db, results)"
| "keyword_scan cfg now queryLower opts (i # ids) results db =
     (if length results \<ge> effective_limit opts then (db, results)
      else
        (case redis_get cfg now i db of
           None \<Rightarrow> keyword_scan cfg now queryLower opts ids results db
         | Some entry \<Rightarrow>
             if \<not> importance_ok opts entry then keyword_scan cfg now queryLower opts ids results db
             else if js_includes (toLowerCase (content entry)) queryLower
             then keyword_scan cfg now queryLower opts ids (results @ [entry])
                    (redis_incrementAccess cfg now i db)
             else keyword_scan cfg now queryLower opts ids results db))"

definition redis_searchByKeyword ::
  "RedisStorageConfig \<Rightarrow> timestamp \<Rightarrow> string \<Rightarrow> MemorySearchOptions \<Rightarrow> redis_db \<Rightarrow> redis_db \<times> ProjectMemoryEntry list" where
  "redis_searchByKeyword cfg now query opts db =
     keyword_scan cfg now (toLowerCase query) opts (zrevrange (search_index cfg opts db) 0 500) [] db"

definition get_each :: "RedisStorageConfig \<Rightarrow> timestamp \<Rightarrow> redis_db \<Rightarrow> string list \<Rightarrow> ProjectMemoryEntry list" where
  "get_each cfg now db ids = List.map_filter (\<lambda>i. redis_get cfg now i db) ids"

definition redis_getByType :: "RedisStorageConfig \<Rightarrow> timestamp \<Rightarrow> string \<Rightarrow> nat \<Rightarrow> redis_db \<Rightarrow> ProjectMemoryEntry list" where
  "redis_getByType cfg now ty n db =
     get_each cfg now db (zrevrange (index_of cfg (''type:'' @ ty) db) 0 (int n - 1))"

text \<open>\<^verbatim>\<open>new Set<string>()\<close> keeps its members in the order of their first insertion.\<close>

definition set_add :: "string \<Rightarrow> string list \<Rightarrow> string list" where
  "set_add i allIds = (if i \<in> set allIds then allIds else allIds @ [i])"

definition redis_getByTags :: "RedisStorageConfig \<Rightarrow> timestamp \<Rightarrow> string list \<Rightarrow> nat \<Rightarrow> redis_db \<Rightarrow> ProjectMemoryEntry list" where
  "redis_getByTags cfg now wanted n db =
     (let allIds = fold (\<lambda>tag allIds. fold set_add (zrevrange (index_of cfg (''tag:'' @ tag) db) 0 (int n - 1)) allIds)
                     wanted []
      in get_each cfg now db (take n allIds))"

definition redis_getRecent :: "RedisStorageConfig \<Rightarrow> timestamp \<Rightarrow> nat \<Rightarrow> redis_db \<Rightarrow> ProjectMemoryEntry list" where
  "redis_getRecent cfg now n db =
     get_each cfg now db (zrevrange (index_of cfg ''recent'' db) 0 (int n - 1))"

definition redis_getImportant :: "RedisStorageConfig \<Rightarrow> timestamp \<Rightarrow> nat \<Rightarrow> redis_db \<Rightarrow> ProjectMemoryEntry list" where
  "redis_getImportant cfg now n db =
     get_each cfg now db (zrevrange (index_of cfg ''importance'' db) 0 (int n - 1))"

definition redis_clear :: "RedisStorageConfig \<Rightarrow> timestamp \<Rightarrow> redis_db \<Rightarrow> redis_db" where
  "redis_clear cfg now db = fold (redis_delete cfg now) (zrange (index_of cfg ''all'' db) 0 (- 1)) db"

section \<open>The \<^verbatim>\<open>MemoryStorage\<close> interface\<close>

text \<open>
  The two implementations of the interface, each with its configuration and the state of
  its database. Every method takes the storage and returns it, changed or not, with its
  result; \<open>now\<close> is the clock at the call. A listing method's \<^verbatim>\<open>limit: number = 10\<close> is
  10 when the caller passes nothing.
\<close>

datatype storage =
    RedisStorage RedisStorageConfig redis_db
  | SqliteStorage StorageConfig table

fun storage_projectId :: "storage \<Rightarrow> string" where
  "storage_projectId (RedisStorage cfg db) = cfg_projectId cfg"
| "storage_projectId (SqliteStorage cfg t) = cfg_projectId cfg"

definition default_limit :: "nat option \<Rightarrow> nat" where
  "default_limit limit = (case limit of None \<Rightarrow> 10 | Some n \<Rightarrow> n)"

fun storage_store :: "timestamp \<Rightarrow> string \<Rightarrow> 'b EntryInput_scheme \<Rightarrow> storage \<Rightarrow> storage_error + storage \<times> string" where
  "storage_store now newId e (RedisStorage cfg db) =
     (case redis_store cfg now newId e db of
        Inl err \<Rightarrow> Inl err
      | Inr (db', i) \<Rightarrow> Inr (RedisStorage cfg db', i))"
| "storage_store now newId e (SqliteStorage cfg t) =
     (case sqlite_store cfg now newId e t of
        Inl err \<Rightarrow> Inl err
      | Inr (t', i) \<Rightarrow> Inr (SqliteStorage cfg t', i))"

fun storage_get :: "timestamp \<Rightarrow> string \<Rightarrow> storage \<Rightarrow> storage \<times> ProjectMemoryEntry option" where
  "storage_get now i (RedisStorage cfg db) = (RedisStorage cfg db, redis_get cfg now i db)"
| "storage_get now i (SqliteStorage cfg t) = (SqliteStorage cfg t, sqlite_get cfg i t)"

fun storage_searchByEmbedding ::
  "timestamp \<Rightarrow> real list \<Rightarrow> MemorySearchOptions \<Rightarrow> storage \<Rightarrow> storage \<times> ProjectMemoryEntry list" where
  "storage_searchByEmbedding now q opts (RedisStorage cfg db) =
     (let (db', results) = redis_searchByEmbedding cfg now q opts db in (RedisStorage cfg db', results))"
| "storage_searchByEmbedding now q opts (SqliteStorage cfg t) =
     (let (t', results) = sqlite_searchByEmbedding cfg now q opts t in (SqliteStorage cfg t', results))"

fun storage_searchByKeyword ::
  "timestamp \<Rightarrow> string \<Rightarrow> MemorySearchOptions \<Rightarrow> storage \<Rightarrow> storage \<times> ProjectMemoryEntry list" where
  "storage_searchByKeyword now query opts (RedisStorage cfg db) =
     (let (db', results) = redis_searchByKeyword cfg now query opts db in (RedisStorage cfg db', results))"
| "storage_searchByKeyword now query opts (SqliteStorage cfg t) =
     (let (t', results) = sqlite_searchByKeyword cfg now query opts t in (SqliteStorage cfg t', results))"

fun storage_getByType :: "timestamp \<Rightarrow> string \<Rightarrow> nat option \<Rightarrow> storage \<Rightarrow> storage \<times> ProjectMemoryEntry list" where
  "storage_getByType now ty limit (RedisStorage cfg db) =
     (RedisStorage cfg db, redis_getByType cfg now ty (default_limit limit) db)"
| "storage_getByType now ty limit (SqliteStorage cfg t) =
     (SqliteStorage cfg t, sqlite_getByType cfg ty (default_limit limit) t)"

fun storage_getByTags ::
  "timestamp \<Rightarrow> string list \<Rightarrow> nat option \<Rightarrow> storage \<Rightarrow> storage_error + storage \<times> ProjectMemoryEntry list" where
  "storage_getByTags now wanted limit (RedisStorage cfg db) =
     Inr (RedisStorage cfg db, redis_getByTags cfg now wanted (default_limit limit) db)"
| "storage_getByTags now wanted limit (SqliteStorage cfg t) =
     (case sqlite_getByTags cfg wanted (default_limit limit) t of
        Inl err \<Rightarrow> Inl err
      | Inr results \<Rightarrow> Inr (SqliteStorage cfg t, results))"

fun storage_getRecent :: "timestamp \<Rightarrow> nat option \<Rightarrow> storage \<Rightarrow> storage \<times> ProjectMemoryEntry list" where
  "storage_getRecent now limit (RedisStorage cfg db) =
     (RedisStorage cfg db, redis_getRecent cfg now (default_limit limit) db)"
| "storage_getRecent now limit (SqliteStorage cfg t) =
     (SqliteStorage cfg t, sqlite_getRecent cfg (default_limit limit) t)"

fun storage_getImportant :: "timestamp \<Rightarrow> nat option \<Rightarrow> storage \<Rightarrow> storage \<times> ProjectMemoryEntry list" where
  "storage_getImportant now limit (RedisStorage cfg db) =
     (RedisStorage cfg db, redis_getImportant cfg now (default_limit limit) db)"
| "storage_getImportant now limit (SqliteStorage cfg t) =
     (SqliteStorage cfg t, sqlite_getImportant cfg (default_limit limit) t)"

fun storage_update :: "timestamp \<Rightarrow> string \<Rightarrow> MemoryUpdates \<Rightarrow> storage \<Rightarrow> storage" where
  "storage_update now i u (RedisStorage cfg db) = RedisStorage cfg (redis_update cfg now i u db)"
| "storage_update now i u (SqliteStorage cfg t) = SqliteStorage cfg (sqlite_update cfg now i u t)"

fun storage_incrementAccess :: "timestamp \<Rightarrow> string \<Rightarrow> storage \<Rightarrow> storage" where
  "storage_incrementAccess now i (RedisStorage cfg db) = RedisStorage cfg (redis_incrementAccess cfg now i db)"
| "storage_incrementAccess now i (SqliteStorage cfg t) = SqliteStorage cfg (sqlite_incrementAccess now i t)"

fun storage_delete :: "timestamp \<Rightarrow> string \<Rightarrow> storage \<Rightarrow> storage" where
  "storage_delete now i (RedisStorage cfg db) = RedisStorage cfg (redis_delete cfg now i db)"
| "storage_delete now i (SqliteStorage cfg t) = SqliteStorage cfg (sqlite_delete cfg i t)"


fun storage_clear :: "timestamp \<Rightarrow> storage \<Rightarrow> storage" where
  "storage_clear now (RedisStorage cfg db) = RedisStorage cfg (redis_clear cfg now db)"
| "storage_clear now (SqliteStorage cfg t) = SqliteStorage cfg (sqlite_clear cfg t)"

section \<open>The facade (project-memory.ts)\<close>

text \<open>
  A \<^verbatim>\<open>ProjectMemory\<close> holds the storage chosen by \<^verbatim>\<open>create\<close> and, if one was
  configured, the embedding provider: \<^verbatim>\<open>embedQuery\<close> as a function that returns
  \<open>None\<close> where the provider throws. \<^verbatim>\<open>create\<close> is the only caller of the constructor
  and gives the facade and its storage the same \<^verbatim>\<open>projectId\<close>, so
  \<^verbatim>\<open>this.config.projectId\<close> is read off the storage.
\<close>

record ProjectMemory =
  pm_storage :: storage
  pm_embeddings :: "(string \<Rightarrow> real list option) option"

record StoreOptions =
  so_importance :: "real option"
  so_metadata :: "string option"
  so_tags :: "string list option"

definition embedQuery :: "ProjectMemory \<Rightarrow> string \<Rightarrow> real list option" where
  "embedQuery pm text = (case pm_embeddings pm of None \<Rightarrow> None | Some provider \<Rightarrow> provider text)"

text \<open>
  \<^verbatim>\<open>store\<close>: the object handed to the storage, with \<^verbatim>\<open>options?.importance ?? 0.5\<close> and
  the embedding of the content if a provider is there and does not throw.
\<close>

definition facade_input :: "string \<Rightarrow> string \<Rightarrow> StoreOptions \<Rightarrow> ProjectMemory \<Rightarrow> EntryInput" where
  "facade_input text ty options pm =
     \<lparr>projectId = storage_projectId (pm_storage pm), content = text, etype = ty,
      importance = (case so_importance options of None \<Rightarrow> 0.5 | Some i \<Rightarrow> i),
      embedding = embedQuery pm text, metadata = so_metadata options, tags = so_tags options\<rparr>"

definition pm_store ::
  "timestamp \<Rightarrow> string \<Rightarrow> string \<Rightarrow> string \<Rightarrow> StoreOptions \<Rightarrow> ProjectMemory \<Rightarrow> storage_error + ProjectMemory \<times> string" where
  "pm_store now newId text ty options pm =
     (case storage_store now newId (facade_input text ty options pm) (pm_storage pm) of
        Inl err \<Rightarrow> Inl err
      | Inr (st, i) \<Rightarrow> Inr (pm\<lparr>pm_storage := st\<rparr>, i))"

text \<open>
  \<^verbatim>\<open>search\<close>: with a provider whose \<^verbatim>\<open>embedQuery\<close> succeeds the search is by embedding;
  without a provider, or when \<^verbatim>\<open>embedQuery\<close> throws, it is by keyword.
\<close>

definition pm_search :: "timestamp \<Rightarrow> string \<Rightarrow> MemorySearchOptions \<Rightarrow> ProjectMemory \<Rightarrow> ProjectMemory \<times> ProjectMemoryEntry list" where
  "pm_search now query opts pm =
     (let (st, results) =
            (case embedQuery pm query of
               Some v \<Rightarrow> storage_searchByEmbedding now v opts (pm_storage pm)
             | None \<Rightarrow> storage_searchByKeyword now query opts (pm_storage pm))
      in (pm\<lparr>pm_storage := st\<rparr>, results))"

definition pm_getImportant :: "timestamp \<Rightarrow> nat option \<Rightarrow> ProjectMemory \<Rightarrow> ProjectMemory \<times> ProjectMemoryEntry list" where
  "pm_getImportant now limit pm =
     (let (st, results) = storage_getImportant now limit (pm_storage pm)
      in (pm\<lparr>pm_storage := st\<rparr>, results))"

definition pm_get :: "timestamp \<Rightarrow> string \<Rightarrow> ProjectMemory \<Rightarrow> ProjectMemoryEntry option" where
  "pm_get now i pm = snd (storage_get now i (pm_storage pm))"

text \<open>
  The loop of \<^verbatim>\<open>getContextForQuery\<close> over \<^verbatim>\<open>[...relevantMemories, ...importantMemories]\<close>
  with the set \<^verbatim>\<open>seen\<close> and the list \<^verbatim>\<open>allMemories\<close>.
\<close>

fun deduplicate :: "ProjectMemoryEntry list \<Rightarrow> string set \<Rightarrow> ProjectMemoryEntry list \<Rightarrow> ProjectMemoryEntry list" where
  "deduplicate [] seen allMemories = allMemories"
| "deduplicate (mem # mems) seen allMemories =
     (if entry_id mem \<in> seen then deduplicate mems seen allMemories
      else deduplicate mems (insert (entry_id mem) seen) (allMemories @ [mem]))"

definition context_header :: "string \<Rightarrow> string" where
  "context_header pid = ''Project knowledge for '' @ [CHR 0x22] @ pid @ [CHR 0x22] @ '':''"

definition context_line :: "ProjectMemoryEntry \<Rightarrow> string" where
  "context_line mem =
     ''- ['' @ etype mem @ '']''
       @ (case tags mem of
            None \<Rightarrow> []
          | Some ts \<Rightarrow> if ts = [] then [] else '' ['' @ join '', '' ts @ '']'')
       @ '' '' @ content mem"

definition render_context :: "string \<Rightarrow> ProjectMemoryEntry list \<Rightarrow> string" where
  "render_context pid allMemories =
     (if length allMemories = 0 then []
      else join [CHR 0x0A] (context_header pid # map context_line allMemories))"

definition pm_getContextForQuery :: "timestamp \<Rightarrow> string \<Rightarrow> ProjectMemory \<Rightarrow> ProjectMemory \<times> string" where
  "pm_getContextForQuery now query pm =
     (let (pm1, relevantMemories) =
            pm_search now query \<lparr>opt_limit = Some 5, opt_type = None, opt_tags = None, opt_minImportance = None\<rparr> pm;
          (pm2, importantMemories) = pm_getImportant now (Some 3) pm1;
          allMemories = deduplicate (relevantMemories @ importantMemories) {} []
      in (pm2, render_context (storage_projectId (pm_storage pm2)) allMemories))"

section \<open>Sample data\<close>

text \<open>Concrete configurations, rows and options at which the theorems below are evaluated.\<close>

definition sample_row :: "string \<Rightarrow> string \<Rightarrow> string \<Rightarrow> real \<Rightarrow> real list option \<Rightarrow> timestamp \<Rightarrow> ProjectMemoryEntry" where
  "sample_row pid i text imp emb created =
     \<lparr>projectId = pid, content = text, etype = ''context'', importance = imp, embedding = emb,
      metadata = None, tags = None, entry_id = i, createdAt = created, updatedAt = created,
      accessCount = 0\<rparr>"

text \<open>The calendar of a host on UTC: a day is 86400000 ms.\<close>

definition utc_calendar :: "timestamp \<Rightarrow> nat \<Rightarrow> timestamp" where
  "utc_calendar now n = now - int n * 86400000"

definition sample_config :: "string \<Rightarrow> nat \<Rightarrow> nat \<Rightarrow> StorageConfig" where
  "sample_config pid maxM days =
     \<lparr>cfg_projectId = pid, maxMemories = maxM, ttlDays = days, setDateBack = utc_calendar\<rparr>"

definition sample_redis_config :: "string \<Rightarrow> nat \<Rightarrow> nat \<Rightarrow> RedisStorageConfig" where
  "sample_redis_config pid maxM days =
     \<lparr>cfg_projectId = pid, maxMemories = maxM, ttlDays = days, setDateBack = utc_calendar,
      keyPrefix = ''memory''\<rparr>"

definition empty_redis :: redis_db where
  "empty_redis = \<lparr>entries = (\<lambda>k. None), embeddings = (\<lambda>k. None), zsets = (\<lambda>k. [])\<rparr>"

definition no_options :: MemorySearchOptions where
  "no_options = \<lparr>opt_limit = None, opt_type = None, opt_tags = None, opt_minImportance = None\<rparr>"

text \<open>
  An id that the bound project does not hold: on SQLite no row has the id together with
  the bound \<^verbatim>\<open>project_id\<close> (the id is in no row, or only in rows of other projects); on
  Redis no unexpired entry is stored under the bound project's key for the id (another
  project's entry is under another project's prefix).
\<close>

fun not_found :: "timestamp \<Rightarrow> string \<Rightarrow> storage \<Rightarrow> bool" where
  "not_found now i (RedisStorage cfg db) = (live now (entries db (memoryKey cfg i)) = None)"
| "not_found now i (SqliteStorage cfg t) = (\<forall>r\<in>set t. entry_id r = i \<longrightarrow> projectId r \<noteq> cfg_projectId cfg)"

definition two_project_table :: table where
  "two_project_table =
     [sample_row ''other'' ''m1'' ''note'' 0.5 None 100, sample_row ''mine'' ''m2'' ''note'' 0.5 None 200]"

definition other_project_redis :: redis_db where
  "other_project_redis =
     empty_redis\<lparr>entries := (\<lambda>k. if k = ''memory:other:entry:m1''
                                   then Some (sample_row ''other'' ''m1'' ''note'' 0.5 None 100, Some 5000)
                                   else None)\<rparr>"

definition sample_updates :: MemoryUpdates where
  "sample_updates =
     \<lparr>upd_content = Some ''changed'', upd_importance = Some 0.9, upd_metadata = None,
      upd_tags = Some [''auth'']\<rparr>"

text \<open>
  What \<^verbatim>\<open>get\<close> at time \<open>now\<close> reports as the importance of the entry whose id a
  \<^verbatim>\<open>store\<close> on the facade returned.
\<close>

definition stored_importance :: "timestamp \<Rightarrow> storage_error + ProjectMemory \<times> string \<Rightarrow> real option" where
  "stored_importance now result =
     (case result of
        Inl err \<Rightarrow> None
      | Inr (pm, i) \<Rightarrow> map_option importance (pm_get now i pm))"

definition sample_sqlite_memory :: ProjectMemory where
  "sample_sqlite_memory =
     \<lparr>pm_storage = SqliteStorage (sample_config ''p'' 10 90) [], pm_embeddings = None\<rparr>"

definition sample_redis_memory :: ProjectMemory where
  "sample_redis_memory =
     \<lparr>pm_storage = RedisStorage (sample_redis_config ''p'' 10 90) empty_redis, pm_embeddings = None\<rparr>"

definition with_importance :: "real \<Rightarrow> StoreOptions" where
  "with_importance x = \<lparr>so_importance = Some x, so_metadata = None, so_tags = None\<rparr>"

text \<open>The entry that \<^verbatim>\<open>get\<close> at time \<open>now\<close> returns for the id a \<^verbatim>\<open>store\<close> on the facade returned.\<close>

definition read_back :: "timestamp \<Rightarrow> storage_error + ProjectMemory \<times> string \<Rightarrow> ProjectMemoryEntry option" where
  "read_back now result = (case result of Inl err \<Rightarrow> None | Inr (pm, i) \<Rightarrow> pm_get now i pm)"

definition sample_stored_redis :: redis_db where
  "sample_stored_redis =
     (case redis_store (sample_redis_config ''p'' 10 90) 1000 ''m1''
             (sample_row ''p'' ''m1'' ''note'' 0.9 None 0) empty_redis of
        Inl err \<Rightarrow> empty_redis
      | Inr (db, i) \<Rightarrow> db)"

definition aged_table :: table where
  "aged_table =
     [sample_row ''p'' ''old-important'' ''note'' 0.9 None 0,
      sample_row ''p'' ''old-minor'' ''note'' 0.3 None 0,
      sample_row ''p'' ''new-minor'' ''note'' 0.3 None 7862400000]"

section \<open>Well-formed stores\<close>

text \<open>
  What \<^verbatim>\<open>incrementAccess\<close> does to an entry.
\<close>

definition surfaced :: "timestamp \<Rightarrow> ProjectMemoryEntry \<Rightarrow> ProjectMemoryEntry" where
  "surfaced now e = e\<lparr>updatedAt := now, accessCount := accessCount e + 1\<rparr>"

text \<open>
  A Redis database as the backend's own writes leave it: the record under the key of id
  \<open>i\<close> carries the id \<open>i\<close> and no vector (the vector is under its own key), and a sorted
  set holds a member once.
\<close>

definition redis_wf :: "RedisStorageConfig \<Rightarrow> redis_db \<Rightarrow> bool" where
  "redis_wf cfg db =
     ((\<forall>i e x. entries db (memoryKey cfg i) = Some (e, x) \<longrightarrow> entry_id e = i \<and> embedding e = None)
      \<and> (\<forall>k. distinct (map fst (zsets db k))))"

text \<open>A SQLite table satisfies its primary-key constraint: no id occurs in two rows.\<close>

fun storage_wf :: "storage \<Rightarrow> bool" where
  "storage_wf (RedisStorage cfg db) = redis_wf cfg db"
| "storage_wf (SqliteStorage cfg t) = distinct (map entry_id t)"

text \<open>
  The test the loop of the Redis \<^verbatim>\<open>searchByKeyword\<close> applies to an id: its entry is found,
  passes \<^verbatim>\<open>minImportance\<close> and has the lower-cased query in its lower-cased content.
\<close>

definition keyword_hit :: "RedisStorageConfig \<Rightarrow> timestamp \<Rightarrow> string \<Rightarrow> MemorySearchOptions \<Rightarrow> redis_db \<Rightarrow> string \<Rightarrow> bool" where
  "keyword_hit cfg now queryLower opts db i =
     (case redis_get cfg now i db of
        None \<Rightarrow> False
      | Some entry \<Rightarrow> importance_ok opts entry \<and> js_includes (toLowerCase (content entry)) queryLower)"

definition keyword_table :: table where
  "keyword_table =
     [sample_row ''p'' ''a'' ''Using PostgreSQL for JSONB support'' 0.5 None 100,
      sample_row ''p'' ''b'' ''Redis for caching'' 0.9 None 200]"

text \<open>
  The expiry time of the Redis record of id \<open>i\<close>: \<open>None\<close> when there is no record,
  \<open>Some None\<close> when the record never expires.
\<close>

definition expiry_of :: "RedisStorageConfig \<Rightarrow> string \<Rightarrow> redis_db \<Rightarrow> timestamp option option" where
  "expiry_of cfg i db = map_option snd (entries db (memoryKey cfg i))"

text \<open>A Redis database after one successful \<^verbatim>\<open>store\<close> (unchanged if the store fails).\<close>

definition store_on :: "RedisStorageConfig \<Rightarrow> timestamp \<Rightarrow> string \<Rightarrow> ProjectMemoryEntry \<Rightarrow> redis_db \<Rightarrow> redis_db" where
  "store_on cfg now newId e db =
     (case redis_store cfg now newId e db of Inl err \<Rightarrow> db | Inr (db', i) \<Rightarrow> db')"

text \<open>
  The backend bound to the project \<^verbatim>\<open>a:entry:b\<close> has stored one entry, under the id
  \<^verbatim>\<open>u\<close>.
\<close>

definition colliding_redis :: redis_db where
  "colliding_redis =
     store_on (sample_redis_config ''a:entry:b'' 10 90) 1000 ''u''
       (sample_row ''a:entry:b'' ''u'' ''note'' 0.5 None 0) empty_redis"

section \<open>Ranking by similarity\<close>

text \<open>The order of two scores that are numbers; a score that is not a number is in no order.\<close>

fun js_geq :: "jsnum \<Rightarrow> jsnum \<Rightarrow> bool" where
  "js_geq (Number x) (Number y) = (y \<le> x)"
| "js_geq _ _ = False"

fun is_number :: "jsnum \<Rightarrow> bool" where
  "is_number (Number x) = True"
| "is_number _ = False"

text \<open>The similarity of an entry's vector to the query.\<close>

definition similarity_to :: "real list \<Rightarrow> ProjectMemoryEntry \<Rightarrow> jsnum" where
  "similarity_to q e = cosineSimilarity q (embedding_of e)"

text \<open>
  The scores of the pool that \<^verbatim>\<open>searchByEmbedding\<close> sorts: on SQLite of the rows its
  query returns, on Redis of the ids pushed to \<^verbatim>\<open>scored\<close>.
\<close>

fun candidate_scores :: "timestamp \<Rightarrow> real list \<Rightarrow> MemorySearchOptions \<Rightarrow> storage \<Rightarrow> jsnum list" where
  "candidate_scores now q opts (RedisStorage cfg db) = map snd (redis_scored cfg now q opts db)"
| "candidate_scores now q opts (SqliteStorage cfg t) = map (similarity_to q) (sqlite_candidates cfg opts t)"

text \<open>The ids of a result list, each with the similarity of its entry to the query.\<close>

definition ranked_scores :: "real list \<Rightarrow> ProjectMemoryEntry list \<Rightarrow> (string \<times> jsnum) list" where
  "ranked_scores q es = map (\<lambda>e. (entry_id e, similarity_to q e)) es"

text \<open>
  Two entries with the vectors \<^verbatim>\<open>[0,1]\<close> and \<^verbatim>\<open>[1,0]\<close>, the first one the more important.
\<close>

definition two_vector_table :: table where
  "two_vector_table =
     [sample_row ''p'' ''second'' ''y axis'' 0.9 (Some [0, 1]) 100,
      sample_row ''p'' ''first'' ''x axis'' 0.5 (Some [1, 0]) 200]"

text \<open>
  Three entries with the vectors \<^verbatim>\<open>[0,1]\<close>, \<^verbatim>\<open>[0,0]\<close> and \<^verbatim>\<open>[1,0]\<close>, in descending
  importance on SQLite, and stored in the reverse order on Redis, so that on either
  backend the pool of a search is \<^verbatim>\<open>e0\<close>, \<^verbatim>\<open>e1\<close>, \<^verbatim>\<open>e2\<close>.
\<close>

definition three_vector_table :: table where
  "three_vector_table =
     [sample_row ''p'' ''e0'' ''y axis'' 0.9 (Some [0, 1]) 100,
      sample_row ''p'' ''e1'' ''origin'' 0.8 (Some [0, 0]) 200,
      sample_row ''p'' ''e2'' ''x axis'' 0.7 (Some [1, 0]) 300]"

definition three_vector_redis :: redis_db where
  "three_vector_redis =
     store_on (sample_redis_config ''p'' 10 90) 3000 ''e0''
       (sample_row ''p'' ''e0'' ''y axis'' 0.5 (Some [0, 1]) 0)
       (store_on (sample_redis_config ''p'' 10 90) 2000 ''e1''
          (sample_row ''p'' ''e1'' ''origin'' 0.5 (Some [0, 0]) 0)
          (store_on (sample_redis_config ''p'' 10 90) 1000 ''e2''
             (sample_row ''p'' ''e2'' ''x axis'' 0.5 (Some [1, 0]) 0) empty_redis))"

section \<open>The merge of \<^verbatim>\<open>getContextForQuery\<close>\<close>

text \<open>
  A list de-duplicated by id with the first occurrence winning: the head stays, and the
  later entries of its id are dropped from the rest.
\<close>

function first_occurrences :: "ProjectMemoryEntry list \<Rightarrow> ProjectMemoryEntry list" where
  "first_occurrences [] = []"
| "first_occurrences (m # ms) = m # first_occurrences (filter (\<lambda>x. entry_id x \<noteq> entry_id m) ms)"
  by pat_completeness auto

termination first_occurrences
  by (relation "measure length") (simp_all add: less_Suc_eq_le)

text \<open>The options \<^verbatim>\<open>{ limit: 5 }\<close> of the search of \<^verbatim>\<open>getContextForQuery\<close>.\<close>

definition limit_five :: MemorySearchOptions where
  "limit_five = \<lparr>opt_limit = Some 5, opt_type = None, opt_tags = None, opt_minImportance = None\<rparr>"

text \<open>A facade without an embedding provider on the SQLite backend holding two entries.\<close>

definition keyword_memory :: ProjectMemory where
  "keyword_memory =
     \<lparr>pm_storage = SqliteStorage (sample_config ''p'' 10 90) keyword_table, pm_embeddings = None\<rparr>"

text \<open>The same facade after a search has returned the entry \<^verbatim>\<open>a\<close> at the time 500.\<close>

definition keyword_memory_searched :: ProjectMemory where
  "keyword_memory_searched =
     \<lparr>pm_storage = SqliteStorage (sample_config ''p'' 10 90)
        [surfaced 500 (sample_row ''p'' ''a'' ''Using PostgreSQL for JSONB support'' 0.5 None 100),
         sample_row ''p'' ''b'' ''Redis for caching'' 0.9 None 200],
      pm_embeddings = None\<rparr>"

section \<open>Keyword search on sample stores\<close>



section \<open>Stores in a row\<close>




text \<open>The rows that the SQLite eviction deletes, and those of the project that it keeps.\<close>

definition evicted_rows :: "'a StorageConfig_scheme \<Rightarrow> table \<Rightarrow> ProjectMemoryEntry list" where
  "evicted_rows cfg t =
     take (sqlite_getCount cfg t - effective_maxMemories cfg + 100)
       (sort_key eviction_order (filter (in_project cfg) t))"


section \<open>Auxiliary facts\<close>

lemma find_None_conv: "find P xs = None \<longleftrightarrow> (\<forall>x\<in>set xs. \<not> P x)"
  by (induction xs) auto

lemma map_if_unchanged: "\<forall>x\<in>set xs. \<not> P x \<Longrightarrow> map (\<lambda>x. if P x then f x else x) xs = xs"
  by (induction xs) auto

lemma set_map_filter_iff: "y \<in> set (List.map_filter f xs) \<longleftrightarrow> (\<exists>x\<in>set xs. f x = Some y)"
  by (induction xs) (auto split: option.splits)

subsection \<open>Case folding and \<^verbatim>\<open>LIKE\<close>\<close>

lemma ascii_lower_upper:
  "ascii_lower CHR ''A'' = CHR ''a''" "ascii_lower CHR ''B'' = CHR ''b''" "ascii_lower CHR ''C'' = CHR ''c''"
  "ascii_lower CHR ''D'' = CHR ''d''" "ascii_lower CHR ''E'' = CHR ''e''" "ascii_lower CHR ''F'' = CHR ''f''"
  "ascii_lower CHR ''G'' = CHR ''g''" "ascii_lower CHR ''H'' = CHR ''h''" "ascii_lower CHR ''I'' = CHR ''i''"
  "ascii_lower CHR ''J'' = CHR ''j''" "ascii_lower CHR ''K'' = CHR ''k''" "ascii_lower CHR ''L'' = CHR ''l''"
  "ascii_lower CHR ''M'' = CHR ''m''" "ascii_lower CHR ''N'' = CHR ''n''" "ascii_lower CHR ''O'' = CHR ''o''"
  "ascii_lower CHR ''P'' = CHR ''p''" "ascii_lower CHR ''Q'' = CHR ''q''" "ascii_lower CHR ''R'' = CHR ''r''"
  "ascii_lower CHR ''S'' = CHR ''s''" "ascii_lower CHR ''T'' = CHR ''t''" "ascii_lower CHR ''U'' = CHR ''u''"
  "ascii_lower CHR ''V'' = CHR ''v''" "ascii_lower CHR ''W'' = CHR ''w''" "ascii_lower CHR ''X'' = CHR ''x''"
  "ascii_lower CHR ''Y'' = CHR ''y''" "ascii_lower CHR ''Z'' = CHR ''z''"
  by (simp_all add: ascii_lower_def)

lemma ascii_lower_other:
  "c \<notin> set ''ABCDEFGHIJKLMNOPQRSTUVWXYZ'' \<Longrightarrow> ascii_lower c = c"
  by (auto simp: ascii_lower_def split: option.splits dest!: map_of_SomeD in_set_zipE)

lemmas lower_eval = toLowerCase_def ascii_lower_upper ascii_lower_other

lemma like_match_percent: "like_match [CHR ''%''] s"
  by (induction s) simp_all

lemma like_match_prefix:
  "\<forall>p\<in>set q. p \<noteq> CHR ''%'' \<and> p \<noteq> CHR ''_'' \<Longrightarrow>
   like_match (q @ [CHR ''%'']) s \<longleftrightarrow> startsWith (toLowerCase s) (toLowerCase q)"
proof (induction q arbitrary: s)
  case Nil
  show ?case by (simp add: like_match_percent toLowerCase_def)
next
  case (Cons p ps)
  have wild: "p \<noteq> CHR ''%''" "p \<noteq> CHR ''_''"
    and rest: "\<forall>p\<in>set ps. p \<noteq> CHR ''%'' \<and> p \<noteq> CHR ''_''"
    using Cons.prems by auto
  show ?case
  proof (cases s)
    case Nil
    then show ?thesis using wild by (simp add: toLowerCase_def)
  next
    case (Cons c cs)
    have "like_match (ps @ [CHR ''%'']) cs \<longleftrightarrow> startsWith (map ascii_lower cs) (map ascii_lower ps)"
      using Cons.IH [OF rest, of cs] by (simp add: toLowerCase_def)
    then show ?thesis using wild Cons by (auto simp: toLowerCase_def)
  qed
qed

text \<open>
  For a query without \<^verbatim>\<open>%\<close> and \<^verbatim>\<open>_\<close>, \<^verbatim>\<open>content LIKE '%query%'\<close> is the test of the
  Redis backend: the lower-cased content includes the lower-cased query.
\<close>

lemma like_match_contains:
  assumes "\<forall>p\<in>set q. p \<noteq> CHR ''%'' \<and> p \<noteq> CHR ''_''"
  shows "like_match (keyword_pattern q) s \<longleftrightarrow> js_includes (toLowerCase s) (toLowerCase q)"
proof (induction s)
  case Nil
  show ?case
    using like_match_prefix [OF assms, of "[]"]
    by (cases q) (auto simp: keyword_pattern_def toLowerCase_def)
next
  case (Cons c cs)
  show ?case
    using Cons like_match_prefix [OF assms, of "c # cs"]
    by (simp add: keyword_pattern_def toLowerCase_def)
qed

lemma startsWith_iff: "startsWith s q \<longleftrightarrow> (\<exists>post. s = q @ post)"
  by (induction s q rule: startsWith.induct) auto

lemma js_includes_iff: "js_includes s q \<longleftrightarrow> (\<exists>pre post. s = pre @ q @ post)"
proof (induction s)
  case Nil
  show ?case by simp
next
  case (Cons c cs)
  show ?case
  proof
    assume "js_includes (c # cs) q"
    then consider "startsWith (c # cs) q" | "js_includes cs q" by auto
    then show "\<exists>pre post. c # cs = pre @ q @ post"
    proof cases
      case 1
      then obtain post where "c # cs = [] @ q @ post" by (auto simp: startsWith_iff)
      then show ?thesis by blast
    next
      case 2
      then obtain pre post where "cs = pre @ q @ post" using Cons by auto
      then have "c # cs = (c # pre) @ q @ post" by simp
      then show ?thesis by blast
    qed
  next
    assume "\<exists>pre post. c # cs = pre @ q @ post"
    then obtain pre post where eq: "c # cs = pre @ q @ post" by blast
    show "js_includes (c # cs) q"
    proof (cases pre)
      case Nil
      then have "startsWith (c # cs) q" using eq by (auto simp: startsWith_iff)
      then show ?thesis by simp
    next
      case (Cons a pre')
      then have "cs = pre' @ q @ post" using eq by simp
      then have "js_includes cs q" using Cons.IH by blast
      then show ?thesis by simp
    qed
  qed
qed

subsection \<open>Cosine similarity\<close>

lemma cosine_loop_short: "length b < length a \<Longrightarrow> cosine_loop a b acc = None"
  by (induction a b acc rule: cosine_loop.induct) auto

lemma cosine_loop_sums:
  "length a \<le> length b \<Longrightarrow>
   cosine_loop a b (d, na, nb) =
     Some (d + sum_list (map2 (*) a b), na + sum_list (map (\<lambda>x. x * x) a),
           nb + sum_list (map (\<lambda>y. y * y) (take (length a) b)))"
  by (induction a b "(d, na, nb)" arbitrary: d na nb rule: cosine_loop.induct) auto

lemma dot_zero_left: "\<forall>x\<in>set a. x = (0::real) \<Longrightarrow> sum_list (map2 (*) a b) = 0"
  by (induction a arbitrary: b) (auto simp: zip_Cons1 split: list.splits)

lemma dot_zero_right: "\<forall>y\<in>set b. y = (0::real) \<Longrightarrow> sum_list (map2 (*) a b) = 0"
  by (induction a arbitrary: b) (auto simp: zip_Cons1 split: list.splits)

lemma norm_zero: "\<forall>x\<in>set a. x = (0::real) \<Longrightarrow> sum_list (map (\<lambda>x. x * x) a) = 0"
  by (induction a) auto

lemma cosine_zero_query: "\<forall>x\<in>set a. x = 0 \<Longrightarrow> cosineSimilarity a b = NaN"
proof (cases "length a \<le> length b")
  case True
  assume z: "\<forall>x\<in>set a. x = 0"
  show ?thesis
    using cosine_loop_sums [OF True, of 0 0 0] dot_zero_left [OF z, of b] norm_zero [OF z]
    by (simp add: cosineSimilarity_def js_divide_def)
next
  case False
  then show ?thesis by (simp add: cosineSimilarity_def cosine_loop_short)
qed

lemma cosine_zero_stored: "\<forall>y\<in>set b. y = 0 \<Longrightarrow> cosineSimilarity a b = NaN"
proof (cases "length a \<le> length b")
  case True
  assume z: "\<forall>y\<in>set b. y = 0"
  then have z': "\<forall>y\<in>set (take (length a) b). y = 0" by (auto dest: in_set_takeD)
  show ?thesis
    using cosine_loop_sums [OF True, of 0 0 0] dot_zero_right [OF z, of a] norm_zero [OF z']
    by (simp add: cosineSimilarity_def js_divide_def)
next
  case False
  then show ?thesis by (simp add: cosineSimilarity_def cosine_loop_short)
qed

lemma divisor_zero_query:
  "\<forall>x\<in>set a. x = 0 \<Longrightarrow> length a \<le> length b \<Longrightarrow> cosine_divisor a b = Some 0"
  using cosine_loop_sums [of a b 0 0 0] norm_zero [of a]
  by (simp add: cosine_divisor_def)

lemma js_insert_never_positive:
  "\<forall>y\<in>set ys. \<not> js_positive (cmp x y) \<Longrightarrow> js_insert cmp x ys = x # ys"
  by (cases ys) auto

lemma js_sort_never_positive:
  "\<forall>x\<in>set xs. \<forall>y\<in>set xs. \<not> js_positive (cmp x y) \<Longrightarrow> js_sort cmp xs = xs"
  unfolding js_sort_def
  by (induction xs) (auto simp: js_insert_never_positive)

lemma sqlite_zero_query:
  assumes "\<forall>x\<in>set q. x = 0"
  shows "snd (sqlite_searchByEmbedding cfg now q opts t)
           = take (effective_limit opts) (sqlite_candidates cfg opts t)"
proof -
  let ?scored = "map (\<lambda>row. (row, cosineSimilarity q (embedding_of row))) (sqlite_candidates cfg opts t)"
  have "\<forall>x\<in>set ?scored. \<forall>y\<in>set ?scored. \<not> js_positive (by_similarity_desc x y)"
    using assms by (auto simp: by_similarity_desc_def cosine_zero_query)
  then have "js_sort by_similarity_desc ?scored = ?scored" by (rule js_sort_never_positive)
  then show ?thesis
    by (simp add: sqlite_searchByEmbedding_def Let_def take_map o_def)
qed

lemma redis_score_SomeD:
  "redis_score cfg now q opts db i = Some (j, s) \<Longrightarrow>
   j = i \<and> (\<exists>v. live now (embeddings db (embeddingKey cfg i)) = Some v \<and> s = cosineSimilarity q v)"
  by (auto simp: redis_score_def split: option.splits if_splits)

lemma redis_zero_query:
  assumes "\<forall>x\<in>set q. x = 0"
  shows "snd ` set (redis_scored cfg now q opts db) \<subseteq> {NaN}"
  using assms
  by (auto simp: redis_scored_def set_map_filter_iff cosine_zero_query dest!: redis_score_SomeD)

subsection \<open>Rows of another project\<close>

lemma other_project_row_unmatched:
  assumes "r \<in> set t" "\<not> in_project cfg r" "distinct (map entry_id t)"
  shows "\<forall>x\<in>set t. \<not> (entry_id x = entry_id r \<and> in_project cfg x)"
  using assms by (auto simp: distinct_map inj_on_def)

lemma find_incrementAccess:
  "r \<in> set t \<Longrightarrow> distinct (map entry_id t) \<Longrightarrow>
   find (\<lambda>x. entry_id x = entry_id r) (sqlite_incrementAccess now (entry_id r) t)
     = Some (r\<lparr>updatedAt := now, accessCount := accessCount r + 1\<rparr>)"
  by (induction t) (auto simp: sqlite_incrementAccess_def)

section \<open>The claims\<close>

text \<open>
  C9. On the SQLite backend \<^verbatim>\<open>incrementAccess(id)\<close> filters by id only: for a row \<open>r\<close> of
  the table that belongs to a project other than the bound one (ids being the primary
  key), the row with that id afterwards is \<open>r\<close> with its access count one higher and
  \<^verbatim>\<open>updatedAt\<close> set to the clock, whereas \<^verbatim>\<open>get\<close> does not see the row and \<^verbatim>\<open>update\<close>
  and \<^verbatim>\<open>delete\<close>, which filter by id and project, leave the table as it is.
\<close>

theorem sqlite_incrementAccess_ignores_project:
  assumes "r \<in> set t" and "projectId r \<noteq> cfg_projectId cfg" and "distinct (map entry_id t)"
  shows "find (\<lambda>x. entry_id x = entry_id r) (sqlite_incrementAccess now (entry_id r) t)
           = Some (r\<lparr>updatedAt := now, accessCount := accessCount r + 1\<rparr>)
       \<and> sqlite_get cfg (entry_id r) t = None
       \<and> sqlite_update cfg now (entry_id r) u t = t
       \<and> sqlite_delete cfg (entry_id r) t = t"
proof -
  have other: "\<not> in_project cfg r" using assms(2) by (simp add: in_project_def)
  have none: "\<forall>x\<in>set t. \<not> (entry_id x = entry_id r \<and> in_project cfg x)"
    using other_project_row_unmatched [OF assms(1) other assms(3)] .
  have "sqlite_get cfg (entry_id r) t = None"
    unfolding sqlite_get_def find_None_conv using none by blast
  moreover have "sqlite_update cfg now (entry_id r) u t = t"
    unfolding sqlite_update_def using none by (intro map_if_unchanged) blast
  moreover have "sqlite_delete cfg (entry_id r) t = t"
    unfolding sqlite_delete_def using none by (intro filter_True) blast
  ultimately show ?thesis
    using find_incrementAccess [OF assms(1) assms(3)] by simp
qed

theorem sqlite_incrementAccess_ignores_project_witness:
  "find (\<lambda>x. entry_id x = ''m1'')
     (sqlite_incrementAccess 500 ''m1''
        [sample_row ''other'' ''m1'' ''note'' 0.5 None 100, sample_row ''mine'' ''m2'' ''note'' 0.5 None 200])
     = Some ((sample_row ''other'' ''m1'' ''note'' 0.5 None 100)\<lparr>updatedAt := 500, accessCount := 1\<rparr>)
   \<and> sqlite_get (sample_config ''mine'' 10 90) ''m1''
        [sample_row ''other'' ''m1'' ''note'' 0.5 None 100, sample_row ''mine'' ''m2'' ''note'' 0.5 None 200] = None"
  using sqlite_incrementAccess_ignores_project
    [of "sample_row ''other'' ''m1'' ''note'' 0.5 None 100"
        "[sample_row ''other'' ''m1'' ''note'' 0.5 None 100, sample_row ''mine'' ''m2'' ''note'' 0.5 None 200]"
        "sample_config ''mine'' 10 90" 500]
  by (simp add: sample_row_def sample_config_def)

text \<open>
  C10. \<^verbatim>\<open>cosineSimilarity\<close> divides by the product of the two norms without testing it.
  For a vector \<open>z\<close> whose components are all zero (the empty vector included) the divisor
  is zero and the score is NaN, whether \<open>z\<close> is the query or the stored vector; and
  \<^verbatim>\<open>searchByEmbedding\<close> ranks on that value: with such a query the SQLite backend
  returns its candidates in the order it fetched them, and every score the Redis backend
  sorts is NaN.
\<close>

theorem cosineSimilarity_zero_divisor_unguarded:
  assumes "\<forall>x\<in>set z. x = 0"
  shows "(length z \<le> length v \<longrightarrow> cosine_divisor z v = Some 0)
       \<and> cosineSimilarity z v = NaN
       \<and> cosineSimilarity v z = NaN
       \<and> snd (sqlite_searchByEmbedding cfg now z opts t)
           = take (effective_limit opts) (sqlite_candidates cfg opts t)
       \<and> snd ` set (redis_scored rcfg now z opts db) \<subseteq> {NaN}"
  using assms
  by (simp add: divisor_zero_query cosine_zero_query cosine_zero_stored sqlite_zero_query redis_zero_query)

theorem cosineSimilarity_zero_divisor_unguarded_witness:
  "cosine_divisor [0, 0] [1, 0] = Some 0
   \<and> cosineSimilarity [0, 0] [1, 0] = NaN
   \<and> cosineSimilarity [1, 0] [0, 0] = NaN
   \<and> cosineSimilarity [] [1, 0] = NaN
   \<and> snd (sqlite_searchByEmbedding (sample_config ''p'' 10 90) 500 [0, 0] no_options
            [sample_row ''p'' ''m1'' ''note'' 0.5 (Some [1, 0]) 100])
       = [sample_row ''p'' ''m1'' ''note'' 0.5 (Some [1, 0]) 100]"
proof -
  have zero: "\<forall>x\<in>set [0, 0 :: real]. x = 0" and empty: "\<forall>x\<in>set ([] :: real list). x = 0"
    by simp_all
  have "cosineSimilarity [] [1, 0] = NaN"
    using cosineSimilarity_zero_divisor_unguarded
            [OF empty, of "[1, 0]" "sample_config ''p'' 10 90" 500 no_options "[]"
               "sample_redis_config ''p'' 10 90" empty_redis]
    by simp
  then show ?thesis
    using cosineSimilarity_zero_divisor_unguarded
            [OF zero, of "[1, 0]" "sample_config ''p'' 10 90" 500 no_options
               "[sample_row ''p'' ''m1'' ''note'' 0.5 (Some [1, 0]) 100]"
               "sample_redis_config ''p'' 10 90" empty_redis]
    by (simp add: sample_row_def sample_config_def no_options_def sqlite_candidates_def
          effective_limit_def in_project_def type_ok_def importance_ok_def)
qed

subsection \<open>Ids that are not found\<close>

lemma entries_index_update [simp]: "entries (index_update cfg k f db) = entries db"
  and embeddings_index_update [simp]: "embeddings (index_update cfg k f db) = embeddings db"
  by (simp_all add: index_update_def)

lemma entries_fold_index_update [simp]:
  "entries (fold (\<lambda>x. index_update cfg (g x) (f x)) xs db) = entries db"
  by (induction xs arbitrary: db) auto

lemma embeddings_fold_index_update [simp]:
  "embeddings (fold (\<lambda>x. index_update cfg (g x) (f x)) xs db) = embeddings db"
  by (induction xs arbitrary: db) auto

lemma entries_removeFromIndexes [simp]: "entries (removeFromIndexes cfg e db) = entries db"
  by (simp add: removeFromIndexes_def Let_def split: option.splits)

lemma embeddings_removeFromIndexes [simp]: "embeddings (removeFromIndexes cfg e db) = embeddings db"
  by (simp add: removeFromIndexes_def Let_def split: option.splits)

lemma live_later: "live now x = None \<Longrightarrow> now \<le> now' \<Longrightarrow> live now' x = None"
  by (auto simp: live_def split: option.splits if_splits)

lemma redis_get_None_iff: "redis_get cfg now i db = None \<longleftrightarrow> live now (entries db (memoryKey cfg i)) = None"
  by (auto simp: redis_get_def split: option.splits)

lemma redis_delete_gone:
  "now \<le> now' \<Longrightarrow> live now' (entries (redis_delete cfg now i db) (memoryKey cfg i)) = None"
  by (auto simp: redis_delete_def Let_def redis_get_None_iff live_later live_def split: option.splits)

lemma redis_not_found:
  assumes "live now (entries db (memoryKey cfg i)) = None"
  shows "redis_get cfg now i db = None" "redis_update cfg now i u db = db" "redis_delete cfg now i db = db"
proof -
  show none: "redis_get cfg now i db = None" using assms by (simp add: redis_get_None_iff)
  show "redis_update cfg now i u db = db" by (simp add: redis_update_def none)
  show "redis_delete cfg now i db = db" by (simp add: redis_delete_def none)
qed

lemma redis_delete_twice:
  "now \<le> now' \<Longrightarrow> redis_delete cfg now' i (redis_delete cfg now i db) = redis_delete cfg now i db"
  by (rule redis_not_found(3)) (rule redis_delete_gone)

lemma sqlite_not_found:
  assumes "\<forall>r\<in>set t. entry_id r = i \<longrightarrow> projectId r \<noteq> cfg_projectId cfg"
  shows "sqlite_get cfg i t = None" "sqlite_update cfg now i u t = t" "sqlite_delete cfg i t = t"
proof -
  have none: "\<forall>x\<in>set t. \<not> (entry_id x = i \<and> in_project cfg x)"
    using assms by (auto simp: in_project_def)
  show "sqlite_get cfg i t = None"
    unfolding sqlite_get_def find_None_conv using none by blast
  show "sqlite_update cfg now i u t = t"
    unfolding sqlite_update_def using none by (intro map_if_unchanged) blast
  show "sqlite_delete cfg i t = t"
    unfolding sqlite_delete_def using none by (intro filter_True) blast
qed

lemma sqlite_delete_twice: "sqlite_delete cfg i (sqlite_delete cfg i t) = sqlite_delete cfg i t"
  by (simp add: sqlite_delete_def)

text \<open>
  When the lookup of an id finds nothing (on SQLite no row with the id and the bound
  \<^verbatim>\<open>project_id\<close>, on Redis no unexpired record under the bound project's key), \<^verbatim>\<open>get\<close>
  returns null and \<^verbatim>\<open>update\<close> and \<^verbatim>\<open>delete\<close> return the storage as it was; and a
  second \<^verbatim>\<open>delete\<close> of the same id, at the same time or later, changes nothing after the
  first.
\<close>

lemma not_found_is_noop:
  "(not_found now i st \<longrightarrow>
      storage_get now i st = (st, None) \<and> storage_update now i u st = st \<and> storage_delete now i st = st)
   \<and> (now \<le> now' \<longrightarrow> storage_delete now' i (storage_delete now i st) = storage_delete now i st)"
proof (cases st)
  case (RedisStorage cfg db)
  then show ?thesis by (simp add: redis_not_found redis_delete_twice)
next
  case (SqliteStorage cfg t)
  then show ?thesis by (simp add: sqlite_not_found sqlite_delete_twice)
qed

lemma not_found_is_noop_example:
  "not_found 500 ''m1'' (SqliteStorage (sample_config ''mine'' 10 90) two_project_table)
   \<and> storage_get 500 ''m1'' (SqliteStorage (sample_config ''mine'' 10 90) two_project_table)
       = (SqliteStorage (sample_config ''mine'' 10 90) two_project_table, None)
   \<and> storage_delete 500 ''m1'' (SqliteStorage (sample_config ''mine'' 10 90) two_project_table)
       = SqliteStorage (sample_config ''mine'' 10 90) two_project_table
   \<and> redis_get (sample_redis_config ''other'' 10 90) 500 ''m1'' other_project_redis
       = Some (sample_row ''other'' ''m1'' ''note'' 0.5 None 100)
   \<and> not_found 500 ''m1'' (RedisStorage (sample_redis_config ''mine'' 10 90) other_project_redis)
   \<and> storage_update 500 ''m1'' sample_updates (RedisStorage (sample_redis_config ''mine'' 10 90) other_project_redis)
       = RedisStorage (sample_redis_config ''mine'' 10 90) other_project_redis
   \<and> (500::int) \<le> 600
   \<and> storage_delete 600 ''m2'' (storage_delete 500 ''m2'' (SqliteStorage (sample_config ''mine'' 10 90) two_project_table))
       = SqliteStorage (sample_config ''mine'' 10 90) [sample_row ''other'' ''m1'' ''note'' 0.5 None 100]"
proof -
  have a: "not_found 500 ''m1'' (SqliteStorage (sample_config ''mine'' 10 90) two_project_table)"
    by (simp add: two_project_table_def sample_row_def sample_config_def)
  have b: "not_found 500 ''m1'' (RedisStorage (sample_redis_config ''mine'' 10 90) other_project_redis)"
    by (simp add: other_project_redis_def empty_redis_def sample_redis_config_def memoryKey_def
          redis_prefix_def live_def)
  have c: "storage_delete 500 ''m2'' (SqliteStorage (sample_config ''mine'' 10 90) two_project_table)
             = SqliteStorage (sample_config ''mine'' 10 90) [sample_row ''other'' ''m1'' ''note'' 0.5 None 100]"
    by (simp add: two_project_table_def sample_row_def sample_config_def sqlite_delete_def in_project_def)
  have d: "redis_get (sample_redis_config ''other'' 10 90) 500 ''m1'' other_project_redis
             = Some (sample_row ''other'' ''m1'' ''note'' 0.5 None 100)"
    by (simp add: redis_get_def other_project_redis_def empty_redis_def sample_redis_config_def
          memoryKey_def redis_prefix_def embeddingKey_def live_def)
  show ?thesis
    using a b c d
      not_found_is_noop [of 500 "''m1''" "SqliteStorage (sample_config ''mine'' 10 90) two_project_table" sample_updates 600]
      not_found_is_noop [of 500 "''m1''" "RedisStorage (sample_redis_config ''mine'' 10 90) other_project_redis" sample_updates 600]
      not_found_is_noop [of 500 "''m2''" "SqliteStorage (sample_config ''mine'' 10 90) two_project_table" sample_updates 600]
    by simp
qed

subsection \<open>What \<^verbatim>\<open>store\<close> writes\<close>

lemma set_evict_over_limit: "set (evict_over_limit cfg t) \<subseteq> set t"
  by (auto simp: evict_over_limit_def)

lemma set_delete_expired: "set (delete_expired cfg now t) \<subseteq> set t"
  by (auto simp: delete_expired_def)

lemma set_sqlite_enforceMemoryLimits: "set (sqlite_enforceMemoryLimits cfg now t) \<subseteq> set t"
  using set_evict_over_limit set_delete_expired
  unfolding sqlite_enforceMemoryLimits_def by blast

lemma sqlite_get_SomeD: "sqlite_get cfg i t = Some r \<Longrightarrow> r \<in> set t \<and> entry_id r = i \<and> in_project cfg r"
  unfolding sqlite_get_def by (auto simp: find_Some_iff)

lemma sqlite_store_get:
  assumes "sqlite_store cfg now newId e t = Inr (t', i)" and "sqlite_get cfg i t' = Some r"
  shows "r = new_entry now newId e"
proof -
  have fresh: "newId \<notin> entry_id ` set t" and i: "i = newId"
    and t': "t' = sqlite_enforceMemoryLimits cfg now (t @ [new_entry now newId e])"
    using assms(1) by (auto simp: sqlite_store_def split: if_splits)
  have "r \<in> set t'" and "entry_id r = newId"
    using sqlite_get_SomeD [OF assms(2)] i by auto
  then have "r \<in> set (t @ [new_entry now newId e])"
    using set_sqlite_enforceMemoryLimits t' by blast
  with fresh \<open>entry_id r = newId\<close> show ?thesis by auto
qed

lemma entries_addToIndexes [simp]: "entries (addToIndexes cfg now e db) = entries db"
  by (simp add: addToIndexes_def Let_def split: option.splits)

lemma embeddings_addToIndexes [simp]: "embeddings (addToIndexes cfg now e db) = embeddings db"
  by (simp add: addToIndexes_def Let_def split: option.splits)

lemma entries_redis_delete: "entries (redis_delete cfg now i db) k = None \<or> entries (redis_delete cfg now i db) k = entries db k"
  by (simp add: redis_delete_def Let_def split: option.splits)

lemma entries_fold_redis_delete:
  "entries (fold (redis_delete cfg now) ids db) k = None \<or> entries (fold (redis_delete cfg now) ids db) k = entries db k"
proof (induction ids arbitrary: db)
  case Nil
  show ?case by simp
next
  case (Cons i ids)
  show ?case
    using Cons.IH [of "redis_delete cfg now i db"] entries_redis_delete [of cfg now i db k]
    by auto
qed

lemma importance_new_entry [simp]: "importance (new_entry now newId e) = importance e"
  by (simp add: new_entry_def)

lemma redis_get_importance:
  "redis_get cfg now i db = Some r \<Longrightarrow> \<exists>x expiry. entries db (memoryKey cfg i) = Some (x, expiry) \<and> importance r = importance x"
  by (auto simp: redis_get_def live_def split: option.splits if_splits)

lemma redis_store_get:
  assumes "redis_store cfg now newId e db = Inr (db', i)" and "redis_get cfg now' i db' = Some r"
  shows "importance r = importance e"
proof -
  define db3 where "db3 = addToIndexes cfg now (new_entry now newId e)
      (case embedding e of
         None \<Rightarrow> db\<lparr>entries := set_ex now (memoryKey cfg newId) ((new_entry now newId e)\<lparr>embedding := None\<rparr>)
                                   (ttl_seconds cfg) (entries db)\<rparr>
       | Some v \<Rightarrow> db\<lparr>entries := set_ex now (memoryKey cfg newId) ((new_entry now newId e)\<lparr>embedding := None\<rparr>)
                                   (ttl_seconds cfg) (entries db),
                        embeddings := set_ex now (embeddingKey cfg newId) v (ttl_seconds cfg) (embeddings db)\<rparr>)"
  have i: "i = newId" and db': "db' = redis_enforceMemoryLimits cfg now db3"
    using assms(1) by (auto simp: redis_store_def Let_def db3_def split: if_splits option.splits)
  have written: "entries db3 (memoryKey cfg newId)
      = Some ((new_entry now newId e)\<lparr>embedding := None\<rparr>, Some (now + int (ttl_seconds cfg) * 1000))"
    by (simp add: db3_def set_ex_def split: option.splits)
  obtain x expiry where x: "entries db' (memoryKey cfg newId) = Some (x, expiry)" "importance r = importance x"
    using redis_get_importance [OF assms(2)] i by auto
  have "entries db' (memoryKey cfg newId) = entries db3 (memoryKey cfg newId)"
    using entries_fold_redis_delete [of cfg now "redis_eviction_ids cfg db3" db3 "memoryKey cfg newId"] x(1)
    by (simp add: db' redis_enforceMemoryLimits_def)
  with written x show ?thesis by auto
qed

lemma storage_store_get:
  assumes "storage_store now newId e st = Inr (st', i)" and "snd (storage_get now' i st') = Some r"
  shows "importance r = importance e"
proof (cases st)
  case (RedisStorage cfg db)
  then show ?thesis
    using assms by (auto split: sum.splits dest: redis_store_get)
next
  case (SqliteStorage cfg t)
  then show ?thesis
    using assms by (auto split: sum.splits dest: sqlite_store_get)
qed

lemma pm_store_InrD:
  "pm_store now newId c ty options pm = Inr (pm', j) \<Longrightarrow>
   \<exists>st''. storage_store now newId (facade_input c ty options pm) (pm_storage pm) = Inr (st'', j)
          \<and> pm' = pm\<lparr>pm_storage := st''\<rparr>"
  by (auto simp: pm_store_def split: sum.splits)

text \<open>
  Neither backend nor the facade changes the importance it is given: whenever \<^verbatim>\<open>get\<close>
  finds the entry that a \<^verbatim>\<open>store\<close> returned the id of, its importance is the number
  passed to \<^verbatim>\<open>store\<close>, and on the facade the number in the options or 0.5 when there
  is none.
\<close>

lemma store_keeps_importance_as_given:
  "(storage_store now newId e st = Inr (st', i) \<and> snd (storage_get now' i st') = Some r
      \<longrightarrow> importance r = importance e)
   \<and> (pm_store now newId c ty options pm = Inr (pm', j) \<and> pm_get now' j pm' = Some r'
      \<longrightarrow> importance r' = (case so_importance options of None \<Rightarrow> 0.5 | Some x \<Rightarrow> x))"
proof -
  have "importance r' = (case so_importance options of None \<Rightarrow> 0.5 | Some x \<Rightarrow> x)"
    if stored: "pm_store now newId c ty options pm = Inr (pm', j)" and found: "pm_get now' j pm' = Some r'"
  proof -
    obtain st'' where "storage_store now newId (facade_input c ty options pm) (pm_storage pm) = Inr (st'', j)"
      and "pm' = pm\<lparr>pm_storage := st''\<rparr>"
      using pm_store_InrD [OF stored] by blast
    then show ?thesis
      using storage_store_get [of now newId "facade_input c ty options pm" "pm_storage pm" st'' j now' r'] found
      by (simp add: pm_get_def facade_input_def)
  qed
  then show ?thesis using storage_store_get by blast
qed

lemma store_keeps_importance_as_given_example:
  "pm_store 1000 ''m1'' ''note'' ''context'' (with_importance 0.7) sample_sqlite_memory
     = Inr (sample_sqlite_memory\<lparr>pm_storage := SqliteStorage (sample_config ''p'' 10 90)
              [(sample_row ''p'' ''m1'' ''note'' 0.7 None 1000)]\<rparr>, ''m1'')
   \<and> pm_get 2000 ''m1'' (sample_sqlite_memory\<lparr>pm_storage := SqliteStorage (sample_config ''p'' 10 90)
              [(sample_row ''p'' ''m1'' ''note'' 0.7 None 1000)]\<rparr>)
       = Some (sample_row ''p'' ''m1'' ''note'' 0.7 None 1000)
   \<and> importance (sample_row ''p'' ''m1'' ''note'' 0.7 None 1000) = 0.7"
proof -
  have a: "pm_store 1000 ''m1'' ''note'' ''context'' (with_importance 0.7) sample_sqlite_memory
     = Inr (sample_sqlite_memory\<lparr>pm_storage := SqliteStorage (sample_config ''p'' 10 90)
              [(sample_row ''p'' ''m1'' ''note'' 0.7 None 1000)]\<rparr>, ''m1'')"
    by (simp add: pm_store_def facade_input_def sample_sqlite_memory_def sample_config_def with_importance_def
          sqlite_store_def sqlite_enforceMemoryLimits_def evict_over_limit_def eviction_victims_def
          sqlite_getCount_def in_project_def effective_maxMemories_def delete_expired_def
          expired_row_def cutoffDate_def utc_calendar_def new_entry_def sample_row_def embedQuery_def)
  have b: "pm_get 2000 ''m1'' (sample_sqlite_memory\<lparr>pm_storage := SqliteStorage (sample_config ''p'' 10 90)
              [(sample_row ''p'' ''m1'' ''note'' 0.7 None 1000)]\<rparr>)
       = Some (sample_row ''p'' ''m1'' ''note'' 0.7 None 1000)"
    by (simp add: pm_get_def sample_sqlite_memory_def sample_config_def sqlite_get_def
          in_project_def sample_row_def)
  show ?thesis
    using a b store_keeps_importance_as_given
      [where now = 1000 and newId = "''m1''" and c = "''note''" and ty = "''context''"
         and options = "with_importance 0.7" and pm = sample_sqlite_memory
         and pm' = "sample_sqlite_memory\<lparr>pm_storage := SqliteStorage (sample_config ''p'' 10 90)
              [(sample_row ''p'' ''m1'' ''note'' 0.7 None 1000)]\<rparr>" and j = "''m1''" and now' = 2000
         and r' = "sample_row ''p'' ''m1'' ''note'' 0.7 None 1000", THEN conjunct2]
    by (simp add: with_importance_def)
qed

text \<open>
  C1. The interface documents \<^verbatim>\<open>importance\<close> as a \<^verbatim>\<open>0-1 score\<close>, yet the store path
  does not keep it there: stored through the facade with importance 1.5 the entry is read
  back with importance 1.5, not 1.0, and with -0.3 it is read back with -0.3, not 0.0,
  on the SQLite backend and on the Redis backend.
\<close>

theorem store_does_not_clamp_importance:
  "stored_importance 2000 (pm_store 1000 ''m1'' ''note'' ''context'' (with_importance 1.5) sample_sqlite_memory)
     = Some 1.5
   \<and> stored_importance 2000 (pm_store 1000 ''m1'' ''note'' ''context'' (with_importance (- 0.3)) sample_sqlite_memory)
     = Some (- 0.3)
   \<and> stored_importance 2000 (pm_store 1000 ''m1'' ''note'' ''context'' (with_importance 1.5) sample_redis_memory)
     = Some 1.5
   \<and> stored_importance 2000 (pm_store 1000 ''m1'' ''note'' ''context'' (with_importance (- 0.3)) sample_redis_memory)
     = Some (- 0.3)"
  by (simp add: stored_importance_def pm_store_def facade_input_def pm_get_def sample_sqlite_memory_def sample_redis_memory_def
        sample_config_def sample_redis_config_def with_importance_def empty_redis_def embedQuery_def
        sqlite_store_def sqlite_enforceMemoryLimits_def evict_over_limit_def eviction_victims_def
        sqlite_getCount_def in_project_def effective_maxMemories_def delete_expired_def
        expired_row_def cutoffDate_def utc_calendar_def new_entry_def sqlite_get_def
        redis_store_def ttl_seconds_def set_ex_def addToIndexes_def index_update_def indexKey_def
        redis_prefix_def memoryKey_def embeddingKey_def zadd_def redis_enforceMemoryLimits_def
        redis_eviction_ids_def redis_getCount_def zcard_def index_of_def redis_get_def live_def Let_def)

subsection \<open>Age-based expiry\<close>

lemma sqlite_age_expiry:
  assumes "ttlDays cfg \<noteq> 0" and "r \<in> set (evict_over_limit cfg t)"
  shows "r \<in> set (sqlite_enforceMemoryLimits cfg now t) \<longleftrightarrow>
         \<not> (projectId r = cfg_projectId cfg \<and> createdAt r < cutoffDate cfg now \<and> importance r < 0.8)"
  using assms
  by (simp add: sqlite_enforceMemoryLimits_def delete_expired_def expired_row_def in_project_def)

lemma memoryKey_inject [simp]: "memoryKey cfg i = memoryKey cfg j \<longleftrightarrow> i = j"
  by (simp add: memoryKey_def)

lemmas redis_eval =
  redis_store_def ttl_seconds_def set_ex_def set_keepttl_def addToIndexes_def removeFromIndexes_def
  index_update_def indexKey_def redis_prefix_def memoryKey_def embeddingKey_def zadd_def zrem_def
  redis_enforceMemoryLimits_def redis_eviction_ids_def redis_getCount_def zcard_def index_of_def
  redis_get_def redis_incrementAccess_def live_def effective_maxMemories_def new_entry_def
  sample_redis_config_def empty_redis_def Let_def


text \<open>
  C3 as stated fails on the Redis backend: an entry stored with importance 0.9 under
  \<^verbatim>\<open>ttlDays = 90\<close> is read back one millisecond before the ninety days are over and is
  gone when they are.
\<close>

theorem redis_expiry_ignores_importance:
  "map_option importance
     (read_back 7776000999 (pm_store 1000 ''m1'' ''note'' ''context'' (with_importance 0.9) sample_redis_memory))
     = Some 0.9
   \<and> read_back 7776001000 (pm_store 1000 ''m1'' ''note'' ''context'' (with_importance 0.9) sample_redis_memory)
     = None"
  by (simp add: read_back_def pm_store_def facade_input_def pm_get_def sample_redis_memory_def
        with_importance_def embedQuery_def redis_eval)

subsection \<open>Sorted sets\<close>

lemma distinct_zmembers: "distinct (map fst z) \<Longrightarrow> distinct (zmembers z)"
proof -
  assume d: "distinct (map fst z)"
  have "distinct (sort_key (\<lambda>(m, s). (s, m)) z)" using d by (simp add: distinct_map)
  moreover have "inj_on fst (set (sort_key (\<lambda>(m, s). (s, m)) z))" using d by (simp add: distinct_map)
  ultimately show ?thesis by (simp add: zmembers_def distinct_map)
qed

lemma distinct_redis_range: "distinct xs \<Longrightarrow> distinct (redis_range xs a b)"
  by (simp add: redis_range_def Let_def)

lemma set_redis_range: "set (redis_range xs a b) \<subseteq> set xs"
  by (auto simp: redis_range_def Let_def dest: in_set_takeD in_set_dropD)

lemma length_redis_range: "0 \<le> b \<Longrightarrow> length (redis_range xs 0 b) \<le> nat b + 1"
  by (auto simp: redis_range_def Let_def)

lemma distinct_zrevrange: "distinct (map fst z) \<Longrightarrow> distinct (zrevrange z a b)"
  by (simp add: zrevrange_def distinct_redis_range distinct_zmembers)

lemma distinct_zrange: "distinct (map fst z) \<Longrightarrow> distinct (zrange z a b)"
  by (simp add: zrange_def distinct_redis_range distinct_zmembers)



subsection \<open>Counting an access on Redis\<close>

lemma surfaced_simps [simp]:
  "entry_id (surfaced now e) = entry_id e" "projectId (surfaced now e) = projectId e"
  "accessCount (surfaced now e) = accessCount e + 1" "updatedAt (surfaced now e) = now"
  "importance (surfaced now e) = importance e" "content (surfaced now e) = content e"
  "embedding (surfaced now e) = embedding e" "createdAt (surfaced now e) = createdAt e"
  by (simp_all add: surfaced_def)

lemma embeddingKey_inject [simp]: "embeddingKey cfg i = embeddingKey cfg j \<longleftrightarrow> i = j"
  by (simp add: embeddingKey_def)

lemma embeddings_incrementAccess [simp]:
  "embeddings (redis_incrementAccess cfg now i db) = embeddings db"
  by (simp add: redis_incrementAccess_def split: option.splits)

lemma zsets_incrementAccess [simp]:
  "zsets (redis_incrementAccess cfg now i db) = zsets db"
  by (simp add: redis_incrementAccess_def split: option.splits)

lemma redis_get_incrementAccess_other:
  "j \<noteq> i \<Longrightarrow> redis_get cfg now j (redis_incrementAccess cfg now i db) = redis_get cfg now j db"
  by (simp add: redis_get_def redis_incrementAccess_def set_keepttl_def split: option.splits)

lemma redis_get_incrementAccess_same:
  assumes "redis_wf cfg db"
  shows "redis_get cfg now i (redis_incrementAccess cfg now i db)
           = map_option (surfaced now) (redis_get cfg now i db)"
proof (cases "redis_get cfg now i db")
  case None
  then show ?thesis by (simp add: redis_incrementAccess_def)
next
  case (Some e)
  then obtain stored x where stored: "entries db (memoryKey cfg i) = Some (stored, x)"
    and alive: "live now (Some (stored, x)) = Some stored"
    by (auto simp: redis_get_def live_def split: option.splits if_splits)
  have noemb: "embedding stored = None" using assms stored by (auto simp: redis_wf_def)
  show ?thesis
    using Some stored alive noemb
    by (auto simp: redis_get_def redis_incrementAccess_def set_keepttl_def live_def surfaced_def
        split: option.splits if_splits)
qed

lemma redis_wf_incrementAccess:
  "redis_wf cfg db \<Longrightarrow> redis_wf cfg (redis_incrementAccess cfg now i db)"
  by (auto simp: redis_wf_def redis_incrementAccess_def set_keepttl_def redis_get_def live_def
      split: option.splits if_splits)

lemma redis_get_fold_incrementAccess:
  "redis_wf cfg db \<Longrightarrow> distinct ids \<Longrightarrow>
   redis_get cfg now j (fold (redis_incrementAccess cfg now) ids db)
     = (if j \<in> set ids then map_option (surfaced now) (redis_get cfg now j db)
        else redis_get cfg now j db)"
proof (induction ids arbitrary: db)
  case Nil
  show ?case by simp
next
  case (Cons i ids)
  have wf': "redis_wf cfg (redis_incrementAccess cfg now i db)"
    using Cons.prems(1) by (rule redis_wf_incrementAccess)
  show ?case
  proof (cases "j = i")
    case True
    then show ?thesis
      using Cons.IH [OF wf'] Cons.prems redis_get_incrementAccess_same [of cfg db now i] by simp
  next
    case False
    then show ?thesis
      using Cons.IH [OF wf'] Cons.prems redis_get_incrementAccess_other [of j i cfg now db] by simp
  qed
qed

lemma map_filter_cong_set:
  "(\<And>x. x \<in> set xs \<Longrightarrow> f x = g x) \<Longrightarrow> List.map_filter f xs = List.map_filter g xs"
  by (induction xs) (auto split: option.splits)

lemma fold_incrementAccess_not_found:
  "redis_get cfg now i db = None \<Longrightarrow> redis_incrementAccess cfg now i db = db"
  by (simp add: redis_incrementAccess_def)

text \<open>The second loop of \<^verbatim>\<open>searchByEmbedding\<close>, for ids that are pairwise different.\<close>

lemma surface_distinct:
  "distinct ids \<Longrightarrow>
   surface cfg now ids db
     = (fold (redis_incrementAccess cfg now) ids db, List.map_filter (\<lambda>i. redis_get cfg now i db) ids)"
proof (induction ids arbitrary: db)
  case Nil
  show ?case by simp
next
  case (Cons i ids)
  have rest: "List.map_filter (\<lambda>j. redis_get cfg now j (redis_incrementAccess cfg now i db)) ids
                = List.map_filter (\<lambda>j. redis_get cfg now j db) ids"
    using Cons.prems by (intro map_filter_cong_set redis_get_incrementAccess_other) auto
  show ?case
  proof (cases "redis_get cfg now i db")
    case None
    then show ?thesis
      using Cons.IH [of db] Cons.prems by (simp add: fold_incrementAccess_not_found)
  next
    case (Some e)
    then show ?thesis
      using Cons.IH [of "redis_incrementAccess cfg now i db"] Cons.prems rest by simp
  qed
qed

text \<open>The loop of the Redis \<^verbatim>\<open>searchByKeyword\<close>, for ids that are pairwise different.\<close>

lemma keyword_hit_incrementAccess:
  "j \<noteq> i \<Longrightarrow> keyword_hit cfg now ql opts (redis_incrementAccess cfg now i db) j = keyword_hit cfg now ql opts db j"
  by (simp add: keyword_hit_def redis_get_incrementAccess_other)

lemma keyword_scan_distinct:
  "distinct ids \<Longrightarrow>
   keyword_scan cfg now ql opts ids results db
     = (fold (redis_incrementAccess cfg now)
          (take (effective_limit opts - length results) (filter (keyword_hit cfg now ql opts db) ids)) db,
        results @ List.map_filter (\<lambda>i. redis_get cfg now i db)
          (take (effective_limit opts - length results) (filter (keyword_hit cfg now ql opts db) ids)))"
proof (induction ids arbitrary: results db)
  case Nil
  show ?case by simp
next
  case (Cons i ids)
  let ?db1 = "redis_incrementAccess cfg now i db"
  have same_hits: "filter (keyword_hit cfg now ql opts ?db1) ids = filter (keyword_hit cfg now ql opts db) ids"
    using Cons.prems by (intro filter_cong refl keyword_hit_incrementAccess) auto
  have same_gets: "List.map_filter (\<lambda>j. redis_get cfg now j ?db1) xs = List.map_filter (\<lambda>j. redis_get cfg now j db) xs"
    if "set xs \<subseteq> set ids" for xs
    using Cons.prems that by (intro map_filter_cong_set redis_get_incrementAccess_other) auto
  show ?case
  proof (cases "effective_limit opts \<le> length results")
    case True
    then show ?thesis by simp
  next
    case False
    then obtain n where n: "effective_limit opts - length results = Suc n"
      by (cases "effective_limit opts - length results") auto
    show ?thesis
    proof (cases "keyword_hit cfg now ql opts db i")
      case miss: False
      then show ?thesis
        using False Cons.IH [of results db] Cons.prems
        by (auto simp: keyword_hit_def split: option.splits)
    next
      case hit: True
      then obtain e where e: "redis_get cfg now i db = Some e" "importance_ok opts e"
        "js_includes (toLowerCase (content e)) ql"
        by (auto simp: keyword_hit_def split: option.splits)
      have n': "effective_limit opts - Suc (length results) = n" using n by simp
      have sub: "set (take n (filter (keyword_hit cfg now ql opts db) ids)) \<subseteq> set ids"
        by (auto dest: in_set_takeD)
      show ?thesis
        using False hit e n Cons.IH [of "results @ [e]" ?db1] Cons.prems
        by (simp add: n' same_hits same_gets [OF sub])
    qed
  qed
qed

subsection \<open>The sort of the scored candidates\<close>

lemma set_js_insert [simp]: "set (js_insert cmp x ys) = insert x (set ys)"
  by (induction ys) auto

lemma js_sort_simps [simp]:
  "js_sort cmp [] = []" "js_sort cmp (x # xs) = js_insert cmp x (js_sort cmp xs)"
  by (simp_all add: js_sort_def)

lemma set_js_sort [simp]: "set (js_sort cmp xs) = set xs"
  by (induction xs) auto

lemma length_js_insert [simp]: "length (js_insert cmp x ys) = Suc (length ys)"
  by (induction ys) auto

lemma length_js_sort [simp]: "length (js_sort cmp xs) = length xs"
  by (induction xs) auto

lemma distinct_map_js_insert:
  "distinct (map f (js_insert cmp x ys)) \<longleftrightarrow> f x \<notin> f ` set ys \<and> distinct (map f ys)"
  by (induction ys) auto

lemma distinct_map_js_sort: "distinct (map f (js_sort cmp xs)) \<longleftrightarrow> distinct (map f xs)"
  by (induction xs) (auto simp: distinct_map_js_insert)

subsection \<open>Counting an access on SQLite\<close>

lemma fold_sqlite_incrementAccess:
  "distinct ids \<Longrightarrow>
   fold (sqlite_incrementAccess now) ids t
     = map (\<lambda>r. if entry_id r \<in> set ids then surfaced now r else r) t"
proof (induction ids arbitrary: t)
  case Nil
  show ?case by simp
next
  case (Cons i ids)
  show ?case
    using Cons.IH [of "sqlite_incrementAccess now i t"] Cons.prems
    by (auto simp: sqlite_incrementAccess_def surfaced_def)
qed

lemma find_map_preserving:
  "(\<And>r. P (f r) = P r) \<Longrightarrow> find P (map f t) = map_option f (find P t)"
  by (induction t) auto

lemma sqlite_get_after_surfacing:
  "sqlite_get cfg j (map (\<lambda>r. if entry_id r \<in> S then surfaced now r else r) t)
     = (if j \<in> S then map_option (surfaced now) (sqlite_get cfg j t) else sqlite_get cfg j t)"
proof -
  let ?f = "\<lambda>r. if entry_id r \<in> S then surfaced now r else r"
  have "sqlite_get cfg j (map ?f t) = map_option ?f (sqlite_get cfg j t)"
    unfolding sqlite_get_def by (rule find_map_preserving) (simp add: in_project_def)
  moreover have "map_option ?f (sqlite_get cfg j t)
      = (if j \<in> S then map_option (surfaced now) (sqlite_get cfg j t) else sqlite_get cfg j t)"
    by (cases "sqlite_get cfg j t") (auto dest: sqlite_get_SomeD)
  ultimately show ?thesis by simp
qed

lemma sqlite_get_own_row:
  "distinct (map entry_id t) \<Longrightarrow> r \<in> set t \<Longrightarrow> in_project cfg r \<Longrightarrow> sqlite_get cfg (entry_id r) t = Some r"
  unfolding sqlite_get_def by (induction t) (auto simp: image_iff)

lemma distinct_ids_sort_take_filter:
  "distinct (map entry_id t) \<Longrightarrow> distinct (map entry_id (take n (sort_key k (filter P t))))"
proof -
  assume d: "distinct (map entry_id t)"
  then have "distinct (map entry_id (filter P t))" by (rule distinct_map_filter)
  then have "distinct (map entry_id (sort_key k (filter P t)))"
    by (simp add: distinct_map)
  then show ?thesis by (simp add: take_map [symmetric] distinct_take del: take_map)
qed

subsection \<open>What a search does to the access counts\<close>

lemma sqlite_keyword_rows_facts:
  assumes "distinct (map entry_id t)"
  shows "distinct (map entry_id (sqlite_keyword_rows cfg q opts t))"
    and "\<forall>r\<in>set (sqlite_keyword_rows cfg q opts t). r \<in> set t \<and> in_project cfg r"
  using assms
  by (auto simp: sqlite_keyword_rows_def distinct_ids_sort_take_filter dest!: in_set_takeD)

lemma sqlite_candidates_facts:
  assumes "distinct (map entry_id t)"
  shows "distinct (map entry_id (sqlite_candidates cfg opts t))"
    and "\<forall>r\<in>set (sqlite_candidates cfg opts t). r \<in> set t \<and> in_project cfg r \<and> embedding r \<noteq> None"
  using assms
  by (auto simp: sqlite_candidates_def distinct_ids_sort_take_filter dest!: in_set_takeD)

lemma sqlite_search_touch:
  assumes d: "distinct (map entry_id t)" and rs: "distinct (map entry_id rs)"
    and sub: "\<forall>r\<in>set rs. r \<in> set t \<and> in_project cfg r"
    and t': "t' = fold (sqlite_incrementAccess now) (map entry_id rs) t"
  shows "(\<forall>e\<in>set rs. sqlite_get cfg (entry_id e) t = Some e)
       \<and> (\<forall>j. sqlite_get cfg j t'
             = (if j \<in> entry_id ` set rs then map_option (surfaced now) (sqlite_get cfg j t)
                else sqlite_get cfg j t))"
  using d sub
  by (auto simp: t' fold_sqlite_incrementAccess [OF rs] sqlite_get_after_surfacing sqlite_get_own_row)

lemma sqlite_searchByKeyword_touch:
  assumes "distinct (map entry_id t)" and "sqlite_searchByKeyword cfg now q opts t = (t', rs)"
  shows "distinct (map entry_id rs)
       \<and> (\<forall>e\<in>set rs. sqlite_get cfg (entry_id e) t = Some e)
       \<and> (\<forall>j. sqlite_get cfg j t'
             = (if j \<in> entry_id ` set rs then map_option (surfaced now) (sqlite_get cfg j t)
                else sqlite_get cfg j t))"
proof -
  have rs: "rs = sqlite_keyword_rows cfg q opts t"
    and t': "t' = fold (sqlite_incrementAccess now) (map entry_id rs) t"
    using assms(2) by (auto simp: sqlite_searchByKeyword_def Let_def fold_map o_def)
  show ?thesis
    using sqlite_search_touch [OF assms(1) _ _ t', of cfg] sqlite_keyword_rows_facts [OF assms(1), of cfg q opts]
    unfolding rs by blast
qed

lemma sqlite_searchByEmbedding_result:
  "snd (sqlite_searchByEmbedding cfg now q opts t)
     = map fst (take (effective_limit opts) (js_sort by_similarity_desc
         (map (\<lambda>row. (row, cosineSimilarity q (embedding_of row))) (sqlite_candidates cfg opts t))))"
  by (simp add: sqlite_searchByEmbedding_def Let_def)

lemma sqlite_searchByEmbedding_touch:
  assumes "distinct (map entry_id t)" and "sqlite_searchByEmbedding cfg now q opts t = (t', rs)"
  shows "distinct (map entry_id rs)
       \<and> (\<forall>e\<in>set rs. sqlite_get cfg (entry_id e) t = Some e)
       \<and> (\<forall>j. sqlite_get cfg j t'
             = (if j \<in> entry_id ` set rs then map_option (surfaced now) (sqlite_get cfg j t)
                else sqlite_get cfg j t))"
proof -
  let ?scored = "map (\<lambda>row. (row, cosineSimilarity q (embedding_of row))) (sqlite_candidates cfg opts t)"
  let ?top = "take (effective_limit opts) (js_sort by_similarity_desc ?scored)"
  have rs: "rs = map fst ?top"
    using assms(2) sqlite_searchByEmbedding_result [of cfg now q opts t] by simp
  have t': "t' = fold (sqlite_incrementAccess now) (map entry_id rs) t"
    using assms(2) by (auto simp: sqlite_searchByEmbedding_def Let_def rs fold_map o_def case_prod_unfold)
  have "distinct (map (entry_id \<circ> fst) (js_sort by_similarity_desc ?scored))"
    using sqlite_candidates_facts(1) [OF assms(1), of cfg opts]
    by (simp add: distinct_map_js_sort o_def)
  then have "distinct (map (entry_id \<circ> fst) ?top)"
    by (simp add: take_map [symmetric] distinct_take del: take_map)
  then have drs: "distinct (map entry_id rs)" by (simp add: rs)
  have "set rs \<subseteq> set (sqlite_candidates cfg opts t)"
    unfolding rs by (auto dest!: in_set_takeD)
  then have sub: "\<forall>r\<in>set rs. r \<in> set t \<and> in_project cfg r"
    using sqlite_candidates_facts(2) [OF assms(1), of cfg opts] by blast
  show ?thesis
    using sqlite_search_touch [OF assms(1) drs sub t'] drs by blast
qed

lemma redis_get_keyed:
  "redis_wf cfg db \<Longrightarrow> redis_get cfg now i db = Some e \<Longrightarrow> entry_id e = i"
  by (auto simp: redis_wf_def redis_get_def live_def split: option.splits if_splits)

lemma redis_search_touch:
  assumes wf: "redis_wf cfg db" and d: "distinct ids"
    and db': "db' = fold (redis_incrementAccess cfg now) ids db"
    and rs: "rs = List.map_filter (\<lambda>i. redis_get cfg now i db) ids"
    and found: "\<forall>i\<in>set ids. redis_get cfg now i db \<noteq> None"
  shows "distinct (map entry_id rs)
       \<and> (\<forall>e\<in>set rs. redis_get cfg now (entry_id e) db = Some e)
       \<and> (\<forall>j. redis_get cfg now j db'
             = (if j \<in> entry_id ` set rs then map_option (surfaced now) (redis_get cfg now j db)
                else redis_get cfg now j db))"
proof -
  have ids: "map entry_id rs = ids"
    unfolding rs using found
  proof (induction ids)
    case Nil
    show ?case by simp
  next
    case (Cons i ids)
    then show ?case using redis_get_keyed [OF wf, of now i] by auto
  qed
  have own: "\<forall>e\<in>set rs. redis_get cfg now (entry_id e) db = Some e"
    unfolding rs using redis_get_keyed [OF wf, of now]
    by (auto simp: set_map_filter_iff)
  have "entry_id ` set rs = set ids" using ids by (metis list.set_map)
  then show ?thesis
    using ids d own redis_get_fold_incrementAccess [OF wf d, of now] db' by simp
qed

lemma redis_searchByKeyword_touch:
  assumes wf: "redis_wf cfg db" and "redis_searchByKeyword cfg now q opts db = (db', rs)"
  shows "distinct (map entry_id rs)
       \<and> (\<forall>e\<in>set rs. redis_get cfg now (entry_id e) db = Some e)
       \<and> (\<forall>j. redis_get cfg now j db'
             = (if j \<in> entry_id ` set rs then map_option (surfaced now) (redis_get cfg now j db)
                else redis_get cfg now j db))"
proof -
  let ?ids = "zrevrange (search_index cfg opts db) 0 500"
  let ?hits = "take (effective_limit opts - length ([] :: ProjectMemoryEntry list))
                 (filter (keyword_hit cfg now (toLowerCase q) opts db) ?ids)"
  have "distinct (map fst (search_index cfg opts db))"
    using wf by (simp add: redis_wf_def search_index_def index_of_def split: option.splits)
  then have d: "distinct ?ids" by (rule distinct_zrevrange)
  then have dh: "distinct ?hits" by simp
  have found: "\<forall>i\<in>set ?hits. redis_get cfg now i db \<noteq> None"
    by (auto simp: keyword_hit_def dest!: in_set_takeD split: option.splits)
  have "db' = fold (redis_incrementAccess cfg now) ?hits db"
    and "rs = List.map_filter (\<lambda>i. redis_get cfg now i db) ?hits"
    using assms(2) keyword_scan_distinct [OF d, of cfg now "toLowerCase q" opts "[]" db]
    by (simp_all add: redis_searchByKeyword_def)
  then show ?thesis
    using redis_search_touch [OF wf dh _ _ found] by blast
qed

lemma redis_top_ids_distinct:
  assumes wf: "redis_wf cfg db"
  shows "distinct (map fst (take n (js_sort by_similarity_desc (redis_scored cfg now q opts db))))"
proof -
  let ?ids = "zrevrange (search_index cfg opts db) 0 100"
  have "distinct (map fst (search_index cfg opts db))"
    using wf by (simp add: redis_wf_def search_index_def index_of_def split: option.splits)
  then have d: "distinct ?ids" by (rule distinct_zrevrange)
  have "map fst (List.map_filter (redis_score cfg now q opts db) ids)
          = filter (\<lambda>i. redis_score cfg now q opts db i \<noteq> None) ids" for ids
    by (induction ids) (auto split: option.splits dest: redis_score_SomeD)
  then have "distinct (map fst (redis_scored cfg now q opts db))"
    using d by (simp add: redis_scored_def)
  then have "distinct (map fst (js_sort by_similarity_desc (redis_scored cfg now q opts db)))"
    by (simp add: distinct_map_js_sort)
  then show ?thesis by (simp add: take_map [symmetric] distinct_take del: take_map)
qed

lemma redis_searchByEmbedding_touch:
  assumes wf: "redis_wf cfg db" and "redis_searchByEmbedding cfg now q opts db = (db', rs)"
  shows "distinct (map entry_id rs)
       \<and> (\<forall>e\<in>set rs. redis_get cfg now (entry_id e) db = Some e)
       \<and> (\<forall>j. redis_get cfg now j db'
             = (if j \<in> entry_id ` set rs then map_option (surfaced now) (redis_get cfg now j db)
                else redis_get cfg now j db))"
proof -
  let ?top = "map fst (take (effective_limit opts) (js_sort by_similarity_desc (redis_scored cfg now q opts db)))"
  let ?live = "filter (\<lambda>i. redis_get cfg now i db \<noteq> None) ?top"
  have d: "distinct ?top" using redis_top_ids_distinct [OF wf] .
  have eq: "(db', rs) = (fold (redis_incrementAccess cfg now) ?top db,
                          List.map_filter (\<lambda>i. redis_get cfg now i db) ?top)"
    using assms(2) surface_distinct [OF d, of cfg now db] by (simp add: redis_searchByEmbedding_def)
  have fold_live: "fold (redis_incrementAccess cfg now) ids db0
      = fold (redis_incrementAccess cfg now) (filter (\<lambda>i. redis_get cfg now i db \<noteq> None) ids) db0"
    if "distinct ids" "\<forall>i\<in>set ids. redis_get cfg now i db0 = redis_get cfg now i db" for ids db0
    using that
  proof (induction ids arbitrary: db0)
    case Nil
    show ?case by simp
  next
    case (Cons i ids)
    show ?case
    proof (cases "redis_get cfg now i db")
      case None
      then show ?thesis
        using Cons by (simp add: fold_incrementAccess_not_found)
    next
      case (Some e)
      have "redis_get cfg now j (redis_incrementAccess cfg now i db0) = redis_get cfg now j db"
        if "j \<in> set ids" for j
      proof -
        have "j \<noteq> i" using that Cons.prems(1) by auto
        then show ?thesis
          using that Cons.prems(2) by (simp add: redis_get_incrementAccess_other)
      qed
      then have "\<forall>j\<in>set ids. redis_get cfg now j (redis_incrementAccess cfg now i db0) = redis_get cfg now j db"
        by blast
      then show ?thesis
        using Some Cons.IH [of "redis_incrementAccess cfg now i db0"] Cons.prems by simp
    qed
  qed
  have map_live: "List.map_filter (\<lambda>i. redis_get cfg now i db) ids
      = List.map_filter (\<lambda>i. redis_get cfg now i db) (filter (\<lambda>i. redis_get cfg now i db \<noteq> None) ids)" for ids
    by (induction ids) (auto split: option.splits)
  have "db' = fold (redis_incrementAccess cfg now) ?live db"
    using eq fold_live [OF d, of db] by simp
  moreover have "rs = List.map_filter (\<lambda>i. redis_get cfg now i db) ?live"
    using eq map_live [of ?top] by simp
  moreover have "distinct ?live" using d by simp
  moreover have "\<forall>i\<in>set ?live. redis_get cfg now i db \<noteq> None" by simp
  ultimately show ?thesis
    using redis_search_touch [OF wf, of ?live db' now rs] by blast
qed

lemma accessCount_new_entry [simp]: "accessCount (new_entry now newId e) = 0"
  by (simp add: new_entry_def)

lemma redis_get_accessCount:
  "redis_get cfg now i db = Some r \<Longrightarrow> \<exists>x expiry. entries db (memoryKey cfg i) = Some (x, expiry) \<and> accessCount r = accessCount x"
  by (auto simp: redis_get_def live_def split: option.splits if_splits)

lemma redis_store_accessCount:
  assumes "redis_store cfg now newId e db = Inr (db', i)" and "redis_get cfg now' i db' = Some r"
  shows "accessCount r = 0"
proof -
  define db3 where "db3 = addToIndexes cfg now (new_entry now newId e)
      (case embedding e of
         None \<Rightarrow> db\<lparr>entries := set_ex now (memoryKey cfg newId) ((new_entry now newId e)\<lparr>embedding := None\<rparr>)
                                   (ttl_seconds cfg) (entries db)\<rparr>
       | Some v \<Rightarrow> db\<lparr>entries := set_ex now (memoryKey cfg newId) ((new_entry now newId e)\<lparr>embedding := None\<rparr>)
                                   (ttl_seconds cfg) (entries db),
                        embeddings := set_ex now (embeddingKey cfg newId) v (ttl_seconds cfg) (embeddings db)\<rparr>)"
  have i: "i = newId" and db': "db' = redis_enforceMemoryLimits cfg now db3"
    using assms(1) by (auto simp: redis_store_def Let_def db3_def split: if_splits option.splits)
  have written: "entries db3 (memoryKey cfg newId)
      = Some ((new_entry now newId e)\<lparr>embedding := None\<rparr>, Some (now + int (ttl_seconds cfg) * 1000))"
    by (simp add: db3_def set_ex_def split: option.splits)
  obtain x expiry where x: "entries db' (memoryKey cfg newId) = Some (x, expiry)" "accessCount r = accessCount x"
    using redis_get_accessCount [OF assms(2)] i by auto
  have "entries db' (memoryKey cfg newId) = entries db3 (memoryKey cfg newId)"
    using entries_fold_redis_delete [of cfg now "redis_eviction_ids cfg db3" db3 "memoryKey cfg newId"] x(1)
    by (simp add: db' redis_enforceMemoryLimits_def)
  with written x show ?thesis by auto
qed

lemma storage_store_accessCount:
  assumes "storage_store now newId e st = Inr (st', i)" and "snd (storage_get now' i st') = Some r"
  shows "accessCount r = 0"
proof (cases st)
  case (RedisStorage cfg db)
  then show ?thesis
    using assms by (auto split: sum.splits dest: redis_store_accessCount)
next
  case (SqliteStorage cfg t)
  then show ?thesis
    using assms by (auto split: sum.splits dest: sqlite_store_get)
qed

lemma storage_search_touch:
  assumes "storage_wf st"
    and "storage_searchByKeyword now q opts st = (st', rs) \<or> storage_searchByEmbedding now v opts st = (st', rs)"
  shows "distinct (map entry_id rs)
       \<and> (\<forall>e\<in>set rs. snd (storage_get now (entry_id e) st) = Some e)
       \<and> (\<forall>j. snd (storage_get now j st')
             = (if j \<in> entry_id ` set rs then map_option (surfaced now) (snd (storage_get now j st))
                else snd (storage_get now j st)))"
proof (cases st)
  case (RedisStorage cfg db)
  then obtain db' where "st' = RedisStorage cfg db'"
    and "redis_searchByKeyword cfg now q opts db = (db', rs) \<or> redis_searchByEmbedding cfg now v opts db = (db', rs)"
    using assms(2) by (auto split: prod.splits)
  then show ?thesis
    using RedisStorage assms(1) redis_searchByKeyword_touch [of cfg db now q opts db' rs]
      redis_searchByEmbedding_touch [of cfg db now v opts db' rs]
    by auto
next
  case (SqliteStorage cfg t)
  then obtain t' where "st' = SqliteStorage cfg t'"
    and "sqlite_searchByKeyword cfg now q opts t = (t', rs) \<or> sqlite_searchByEmbedding cfg now v opts t = (t', rs)"
    using assms(2) by (auto split: prod.splits)
  then show ?thesis
    using SqliteStorage assms(1) sqlite_searchByKeyword_touch [of t cfg now q opts t' rs]
      sqlite_searchByEmbedding_touch [of t cfg now v opts t' rs]
    by auto
qed

lemma storage_reads_pure:
  "fst (storage_get now j st) = st" "fst (storage_getByType now ty n st) = st"
  "storage_getByTags now wanted n st = Inr (st', rs) \<Longrightarrow> st' = st"
  "fst (storage_getRecent now n st) = st" "fst (storage_getImportant now n st) = st"
  by (cases st; auto split: sum.splits)+

subsection \<open>The Redis backend keeps its database well-formed\<close>











text \<open>
  C8. An entry is stored with access count 0. On a well-formed store a keyword search or
  an embedding search returns entries with pairwise different ids, each as \<^verbatim>\<open>get\<close> saw
  it before the search; after the search \<^verbatim>\<open>get\<close> sees each returned entry with its access
  count one higher and \<^verbatim>\<open>updatedAt\<close> set to the clock, and every other entry as before.
  \<^verbatim>\<open>get\<close>, \<^verbatim>\<open>getByType\<close>, \<^verbatim>\<open>getByTags\<close>, \<^verbatim>\<open>getRecent\<close> and \<^verbatim>\<open>getImportant\<close> return the
  storage as they received it.
\<close>

theorem access_counted_once_per_search_result:
  assumes "storage_wf st"
  shows "(storage_store now newId e st = Inr (st1, i) \<and> snd (storage_get now' i st1) = Some r
            \<longrightarrow> accessCount r = 0)
       \<and> (storage_searchByKeyword now q opts st = (st2, rs) \<or> storage_searchByEmbedding now v opts st = (st2, rs)
            \<longrightarrow> distinct (map entry_id rs)
              \<and> (\<forall>x\<in>set rs. snd (storage_get now (entry_id x) st) = Some x)
              \<and> (\<forall>j. snd (storage_get now j st2)
                    = (if j \<in> entry_id ` set rs then map_option (surfaced now) (snd (storage_get now j st))
                       else snd (storage_get now j st))))
       \<and> fst (storage_get now j st) = st
       \<and> fst (storage_getByType now ty n st) = st
       \<and> (storage_getByTags now wanted n st = Inr (st3, rs3) \<longrightarrow> st3 = st)
       \<and> fst (storage_getRecent now n st) = st
       \<and> fst (storage_getImportant now n st) = st"
  using storage_store_accessCount [of now newId e st st1 i now' r]
    storage_search_touch [OF assms, of now q opts st2 rs v]
    storage_reads_pure(1,2,4,5) storage_reads_pure(3) [of now wanted n st st3 rs3]
  by blast

theorem access_counted_once_per_search_result_witness:
  "storage_wf (SqliteStorage (sample_config ''p'' 10 90) keyword_table)
   \<and> storage_searchByKeyword 500 ''postgresql'' no_options (SqliteStorage (sample_config ''p'' 10 90) keyword_table)
       = (SqliteStorage (sample_config ''p'' 10 90)
            [surfaced 500 (sample_row ''p'' ''a'' ''Using PostgreSQL for JSONB support'' 0.5 None 100),
             sample_row ''p'' ''b'' ''Redis for caching'' 0.9 None 200],
          [sample_row ''p'' ''a'' ''Using PostgreSQL for JSONB support'' 0.5 None 100])
   \<and> map_option accessCount (snd (storage_get 500 ''a'' (SqliteStorage (sample_config ''p'' 10 90)
            [surfaced 500 (sample_row ''p'' ''a'' ''Using PostgreSQL for JSONB support'' 0.5 None 100),
             sample_row ''p'' ''b'' ''Redis for caching'' 0.9 None 200]))) = Some 1
   \<and> map_option updatedAt (snd (storage_get 500 ''a'' (SqliteStorage (sample_config ''p'' 10 90)
            [surfaced 500 (sample_row ''p'' ''a'' ''Using PostgreSQL for JSONB support'' 0.5 None 100),
             sample_row ''p'' ''b'' ''Redis for caching'' 0.9 None 200]))) = Some 500
   \<and> snd (storage_get 500 ''b'' (SqliteStorage (sample_config ''p'' 10 90)
            [surfaced 500 (sample_row ''p'' ''a'' ''Using PostgreSQL for JSONB support'' 0.5 None 100),
             sample_row ''p'' ''b'' ''Redis for caching'' 0.9 None 200]))
       = Some (sample_row ''p'' ''b'' ''Redis for caching'' 0.9 None 200)"
proof -
  let ?st = "SqliteStorage (sample_config ''p'' 10 90) keyword_table"
  let ?a = "sample_row ''p'' ''a'' ''Using PostgreSQL for JSONB support'' 0.5 None 100"
  let ?b = "sample_row ''p'' ''b'' ''Redis for caching'' 0.9 None 200"
  let ?st2 = "SqliteStorage (sample_config ''p'' 10 90) [surfaced 500 ?a, ?b]"
  have wf: "storage_wf ?st" by (simp add: keyword_table_def sample_row_def)
  have found: "like_match (keyword_pattern ''postgresql'') ''Using PostgreSQL for JSONB support''"
    by (subst like_match_contains) (simp_all add: lower_eval)
  have missed: "\<not> like_match (keyword_pattern ''postgresql'') ''Redis for caching''"
    by (subst like_match_contains) (simp_all add: lower_eval)
  have search: "storage_searchByKeyword 500 ''postgresql'' no_options ?st = (?st2, [?a])"
    using found missed
    by (simp add: keyword_table_def sqlite_searchByKeyword_def sqlite_keyword_rows_def
          sqlite_incrementAccess_def surfaced_def in_project_def type_ok_def importance_ok_def
          effective_limit_def no_options_def sample_config_def sample_row_def)
  have before: "snd (storage_get 500 ''a'' ?st) = Some ?a" "snd (storage_get 500 ''b'' ?st) = Some ?b"
    by (simp_all add: keyword_table_def sqlite_get_def in_project_def sample_config_def sample_row_def)
  note after = access_counted_once_per_search_result
      [OF wf, where now = 500 and q = "''postgresql''" and opts = no_options and ?st2.0 = ?st2 and rs = "[?a]",
       THEN conjunct2, THEN conjunct1, rule_format, OF disjI1, OF search, THEN conjunct2, THEN conjunct2, rule_format]
  show ?thesis
    using wf search before after [of "''a''"] after [of "''b''"]
    by (simp add: sample_row_def)
qed

subsection \<open>Expiry on Redis\<close>

lemma indexKey_inject [simp]: "indexKey cfg a = indexKey cfg b \<longleftrightarrow> a = b"
  by (simp add: indexKey_def)

lemma index_of_index_update:
  "index_of cfg a (index_update cfg b f db) = (if a = b then f (index_of cfg a db) else index_of cfg a db)"
  by (simp add: index_of_def index_update_def)

lemma index_of_fold_index_update:
  "\<forall>x\<in>set xs. g x \<noteq> a \<Longrightarrow>
   index_of cfg a (fold (\<lambda>x. index_update cfg (g x) (f x)) xs db) = index_of cfg a db"
  by (induction xs arbitrary: db) (auto simp: index_of_index_update)

lemma index_all_addToIndexes:
  "index_of cfg ''all'' (addToIndexes cfg now e db)
     = zadd (real_of_int now) (entry_id e) (index_of cfg ''all'' db)"
  by (simp add: addToIndexes_def Let_def index_of_index_update index_of_fold_index_update
      split: option.splits)

lemma zcard_zadd: "zcard (zadd s m z) \<le> Suc (zcard z)"
  by (simp add: zcard_def zadd_def le_SucI)

lemma redis_getCount_addToIndexes:
  "redis_getCount cfg (addToIndexes cfg now e db) \<le> Suc (redis_getCount cfg db)"
  by (simp add: redis_getCount_def index_all_addToIndexes zcard_zadd)

lemma redis_no_sweep:
  "redis_getCount cfg db \<le> effective_maxMemories cfg \<Longrightarrow> redis_enforceMemoryLimits cfg now db = db"
  by (simp add: redis_enforceMemoryLimits_def redis_eviction_ids_def Let_def)

lemma redis_store_under_limit:
  assumes "redis_getCount cfg db < effective_maxMemories cfg"
    and "redis_store cfg now newId e db = Inr (db', i)"
  shows "i = newId"
    and "entries db' (memoryKey cfg newId)
           = Some ((new_entry now newId e)\<lparr>embedding := None\<rparr>, Some (now + int (ttlDays cfg) * 86400000))"
    and "embedding e = Some v \<Longrightarrow>
         embeddings db' (embeddingKey cfg newId) = Some (v, Some (now + int (ttlDays cfg) * 86400000))"
    and "embedding e = None \<Longrightarrow> embeddings db' = embeddings db"
proof -
  define db2 where "db2 = (case embedding e of
         None \<Rightarrow> db\<lparr>entries := set_ex now (memoryKey cfg newId) ((new_entry now newId e)\<lparr>embedding := None\<rparr>)
                                   (ttl_seconds cfg) (entries db)\<rparr>
       | Some v \<Rightarrow> db\<lparr>entries := set_ex now (memoryKey cfg newId) ((new_entry now newId e)\<lparr>embedding := None\<rparr>)
                                   (ttl_seconds cfg) (entries db),
                        embeddings := set_ex now (embeddingKey cfg newId) v (ttl_seconds cfg) (embeddings db)\<rparr>)"
  define db3 where "db3 = addToIndexes cfg now (new_entry now newId e) db2"
  have count2: "redis_getCount cfg db2 = redis_getCount cfg db"
    by (simp add: db2_def redis_getCount_def index_of_def split: option.splits)
  have "redis_getCount cfg db3 \<le> effective_maxMemories cfg"
    using assms(1) redis_getCount_addToIndexes [of cfg now "new_entry now newId e" db2]
    by (simp add: db3_def count2)
  then have same: "redis_enforceMemoryLimits cfg now db3 = db3" by (rule redis_no_sweep)
  have "i = newId \<and> db' = redis_enforceMemoryLimits cfg now db3"
    using assms(2) by (auto simp: redis_store_def Let_def db3_def db2_def split: if_splits option.splits)
  then have i: "i = newId" and db': "db' = db3" using same by simp_all
  show "i = newId" by (rule i)
  show "entries db' (memoryKey cfg newId)
           = Some ((new_entry now newId e)\<lparr>embedding := None\<rparr>, Some (now + int (ttlDays cfg) * 86400000))"
    by (simp add: db' db3_def db2_def set_ex_def ttl_seconds_def split: option.splits)
  show "embeddings db' (embeddingKey cfg newId) = Some (v, Some (now + int (ttlDays cfg) * 86400000))"
    if "embedding e = Some v"
    using that by (simp add: db' db3_def db2_def set_ex_def ttl_seconds_def)
  show "embeddings db' = embeddings db" if "embedding e = None"
    using that by (simp add: db' db3_def db2_def)
qed

lemma redis_store_readable_until_expiry:
  assumes "redis_getCount cfg db < effective_maxMemories cfg"
    and "redis_store cfg now newId e db = Inr (db', i)"
  shows "expiry_of cfg i db' = Some (Some (now + int (ttlDays cfg) * 86400000))"
    and "map_option importance (redis_get cfg now' i db')
           = (if now' < now + int (ttlDays cfg) * 86400000 then Some (importance e) else None)"
proof -
  note facts = redis_store_under_limit [OF assms]
  show "expiry_of cfg i db' = Some (Some (now + int (ttlDays cfg) * 86400000))"
    by (simp add: expiry_of_def facts(1,2))
  show "map_option importance (redis_get cfg now' i db')
           = (if now' < now + int (ttlDays cfg) * 86400000 then Some (importance e) else None)"
    by (simp add: redis_get_def facts(1,2) live_def split: option.splits)
qed

lemma expiry_of_incrementAccess:
  "expiry_of cfg i (redis_incrementAccess cfg now j db) = expiry_of cfg i db"
  by (auto simp: expiry_of_def redis_incrementAccess_def set_keepttl_def redis_get_def live_def
      split: option.splits if_splits)

lemma expiry_of_index_update [simp]:
  "expiry_of cfg i (index_update cfg k f db) = expiry_of cfg i db"
  by (simp add: expiry_of_def)

lemma expiry_of_update:
  "expiry_of cfg i (redis_update cfg now j u db) = expiry_of cfg i db"
  by (auto simp: expiry_of_def redis_update_def set_keepttl_def redis_get_def live_def Let_def
      split: option.splits if_splits)

text \<open>
  C3, as the code has it. On SQLite \<^verbatim>\<open>enforceMemoryLimits\<close> has an age rule: when
  \<^verbatim>\<open>ttlDays\<close> is not 0, a row left by the count eviction is deleted exactly if it is a row
  of the bound project, created before the cutoff (the clock set back \<^verbatim>\<open>ttlDays\<close> days of
  the host's calendar), with importance below 0.8; a row of importance 0.8 or more is kept
  at any age, and with \<^verbatim>\<open>ttlDays\<close> 0 no row is deleted for its age. On Redis
  \<^verbatim>\<open>enforceMemoryLimits\<close> has no age rule: at or below the count limit it leaves the
  database as it is. Instead a record stored below the count limit carries the expiry time
  of \<^verbatim>\<open>ttlDays\<close> times 86400 seconds after the store, whatever its importance: \<^verbatim>\<open>get\<close>
  finds it, with the importance given, before that time and not from that time on; and
  \<^verbatim>\<open>incrementAccess\<close> and \<^verbatim>\<open>update\<close> leave the expiry time of every record as it was.
\<close>

theorem age_expiry_on_each_backend:
  "(ttlDays cfg \<noteq> 0 \<and> r \<in> set (evict_over_limit cfg t) \<longrightarrow>
      (r \<in> set (sqlite_enforceMemoryLimits cfg now t) \<longleftrightarrow>
       \<not> (projectId r = cfg_projectId cfg \<and> createdAt r < cutoffDate cfg now \<and> importance r < 0.8)))
   \<and> (ttlDays cfg = 0 \<longrightarrow> sqlite_enforceMemoryLimits cfg now t = evict_over_limit cfg t)
   \<and> (redis_getCount rcfg db \<le> effective_maxMemories rcfg \<longrightarrow> redis_enforceMemoryLimits rcfg now db = db)
   \<and> (redis_getCount rcfg db < effective_maxMemories rcfg \<and> redis_store rcfg now newId e db = Inr (db', i) \<longrightarrow>
        expiry_of rcfg i db' = Some (Some (now + int (ttlDays rcfg) * 86400000))
        \<and> map_option importance (redis_get rcfg now' i db')
            = (if now' < now + int (ttlDays rcfg) * 86400000 then Some (importance e) else None))
   \<and> expiry_of rcfg j (redis_incrementAccess rcfg now k db) = expiry_of rcfg j db
   \<and> expiry_of rcfg j (redis_update rcfg now k u db) = expiry_of rcfg j db"
proof -
  have "ttlDays cfg = 0 \<longrightarrow> sqlite_enforceMemoryLimits cfg now t = evict_over_limit cfg t"
    by (simp add: sqlite_enforceMemoryLimits_def delete_expired_def)
  then show ?thesis
    using sqlite_age_expiry [of cfg r t now] redis_no_sweep [of rcfg db now]
      redis_store_readable_until_expiry(1) [where cfg = rcfg and db = db and now = now and newId = newId
        and e = e and db' = db' and i = i]
      redis_store_readable_until_expiry(2) [where cfg = rcfg and db = db and now = now and newId = newId
        and e = e and db' = db' and i = i and now' = now']
      expiry_of_incrementAccess [of rcfg j now k db] expiry_of_update [of rcfg j now k u db]
    by blast
qed

theorem age_expiry_on_each_backend_witness:
  "ttlDays (sample_config ''p'' 10 90) \<noteq> 0
   \<and> cutoffDate (sample_config ''p'' 10 90) 7862400000 = 86400000
   \<and> sample_row ''p'' ''old-important'' ''note'' 0.9 None 0 \<in> set (evict_over_limit (sample_config ''p'' 10 90) aged_table)
   \<and> sample_row ''p'' ''old-important'' ''note'' 0.9 None 0
       \<in> set (sqlite_enforceMemoryLimits (sample_config ''p'' 10 90) 7862400000 aged_table)
   \<and> sample_row ''p'' ''old-minor'' ''note'' 0.3 None 0 \<in> set (evict_over_limit (sample_config ''p'' 10 90) aged_table)
   \<and> sample_row ''p'' ''old-minor'' ''note'' 0.3 None 0
       \<notin> set (sqlite_enforceMemoryLimits (sample_config ''p'' 10 90) 7862400000 aged_table)
   \<and> redis_getCount (sample_redis_config ''p'' 10 90) empty_redis < effective_maxMemories (sample_redis_config ''p'' 10 90)
   \<and> redis_store (sample_redis_config ''p'' 10 90) 1000 ''m1'' (sample_row ''p'' ''m1'' ''note'' 0.9 None 0) empty_redis
       = Inr (sample_stored_redis, ''m1'')
   \<and> expiry_of (sample_redis_config ''p'' 10 90) ''m1'' sample_stored_redis = Some (Some 7776001000)
   \<and> map_option importance (redis_get (sample_redis_config ''p'' 10 90) 7776000999 ''m1'' sample_stored_redis) = Some 0.9
   \<and> redis_get (sample_redis_config ''p'' 10 90) 7776001000 ''m1'' sample_stored_redis = None
   \<and> expiry_of (sample_redis_config ''p'' 10 90) ''m1''
        (redis_incrementAccess (sample_redis_config ''p'' 10 90) 5000 ''m1'' sample_stored_redis) = Some (Some 7776001000)"
proof -
  let ?cfg = "sample_config ''p'' 10 90" and ?rcfg = "sample_redis_config ''p'' 10 90"
  let ?e = "sample_row ''p'' ''m1'' ''note'' 0.9 None 0"
  have days: "ttlDays ?cfg \<noteq> 0" and cutoff: "cutoffDate ?cfg 7862400000 = 86400000"
    by (simp_all add: sample_config_def cutoffDate_def utc_calendar_def)
  have kept: "evict_over_limit ?cfg aged_table = aged_table"
    by (simp add: evict_over_limit_def eviction_victims_def sqlite_getCount_def in_project_def
          effective_maxMemories_def sample_config_def aged_table_def sample_row_def)
  have a: "sample_row ''p'' ''old-important'' ''note'' 0.9 None 0 \<in> set (evict_over_limit ?cfg aged_table)"
    and b: "sample_row ''p'' ''old-minor'' ''note'' 0.3 None 0 \<in> set (evict_over_limit ?cfg aged_table)"
    unfolding kept by (simp_all add: aged_table_def)
  have below: "redis_getCount ?rcfg empty_redis < effective_maxMemories ?rcfg"
    by (simp add: redis_getCount_def index_of_def zcard_def empty_redis_def effective_maxMemories_def
          sample_redis_config_def)
  have stored: "redis_store ?rcfg 1000 ''m1'' ?e empty_redis = Inr (sample_stored_redis, ''m1'')"
    by (simp add: sample_stored_redis_def redis_store_def ttl_seconds_def sample_redis_config_def Let_def)
  note sqlite = age_expiry_on_each_backend [where cfg = ?cfg and t = aged_table and now = 7862400000, THEN conjunct1]
  note redis = age_expiry_on_each_backend
      [where rcfg = ?rcfg and now = 1000 and newId = "''m1''" and e = ?e and db = empty_redis
         and db' = sample_stored_redis and i = "''m1''",
       THEN conjunct2, THEN conjunct2, THEN conjunct2, THEN conjunct1, rule_format, OF conjI, OF below stored]
  have ttl: "(1000::int) + int (ttlDays ?rcfg) * 86400000 = 7776001000"
    by (simp add: sample_redis_config_def)
  have c: "expiry_of ?rcfg ''m1'' sample_stored_redis = Some (Some 7776001000)"
    using redis [THEN conjunct1] unfolding ttl .
  have d: "map_option importance (redis_get ?rcfg 7776000999 ''m1'' sample_stored_redis) = Some 0.9"
    using redis [where now' = 7776000999, THEN conjunct2] unfolding ttl by (simp add: sample_row_def)
  have e: "redis_get ?rcfg 7776001000 ''m1'' sample_stored_redis = None"
    using redis [where now' = 7776001000, THEN conjunct2] unfolding ttl by simp
  have f: "expiry_of ?rcfg ''m1'' (redis_incrementAccess ?rcfg 5000 ''m1'' sample_stored_redis) = Some (Some 7776001000)"
    using c age_expiry_on_each_backend
      [where rcfg = ?rcfg and j = "''m1''" and now = 5000 and k = "''m1''" and db = sample_stored_redis,
       THEN conjunct2, THEN conjunct2, THEN conjunct2, THEN conjunct2, THEN conjunct1]
    by simp
  have g: "sample_row ''p'' ''old-important'' ''note'' 0.9 None 0
       \<in> set (sqlite_enforceMemoryLimits ?cfg 7862400000 aged_table)"
    using days a sqlite [of "sample_row ''p'' ''old-important'' ''note'' 0.9 None 0"]
    by (simp add: sample_row_def)
  have h: "sample_row ''p'' ''old-minor'' ''note'' 0.3 None 0
       \<notin> set (sqlite_enforceMemoryLimits ?cfg 7862400000 aged_table)"
    using days b cutoff sqlite [of "sample_row ''p'' ''old-minor'' ''note'' 0.3 None 0"]
    by (simp add: sample_row_def sample_config_def)
  show ?thesis
    using days cutoff a g b h below stored c d e f by (intro conjI)
qed

text \<open>
  C7. On Redis an id of another project is not always "not found". The key of an entry
  is the text \<^verbatim>\<open>prefix:projectId:entry:id\<close>, so the backend bound to project \<^verbatim>\<open>a\<close>, asked
  for the id \<^verbatim>\<open>b:entry:u\<close>, addresses the record that project \<^verbatim>\<open>a:entry:b\<close> stored under
  the id \<^verbatim>\<open>u\<close>: its \<^verbatim>\<open>get\<close> returns that project's entry, its \<^verbatim>\<open>update\<close> rewrites it
  and its \<^verbatim>\<open>delete\<close> removes it.
\<close>

theorem redis_key_reaches_another_project:
  "map_option projectId (snd (storage_get 2000 ''b:entry:u''
       (RedisStorage (sample_redis_config ''a'' 10 90) colliding_redis))) = Some ''a:entry:b''
   \<and> map_option entry_id (snd (storage_get 2000 ''b:entry:u''
       (RedisStorage (sample_redis_config ''a'' 10 90) colliding_redis))) = Some ''u''
   \<and> map_option content (redis_get (sample_redis_config ''a:entry:b'' 10 90) 2000 ''u'' colliding_redis)
       = Some ''note''
   \<and> map_option content (redis_get (sample_redis_config ''a:entry:b'' 10 90) 2000 ''u''
        (redis_update (sample_redis_config ''a'' 10 90) 2000 ''b:entry:u'' sample_updates colliding_redis))
       = Some ''changed''
   \<and> redis_get (sample_redis_config ''a:entry:b'' 10 90) 2000 ''u''
        (redis_delete (sample_redis_config ''a'' 10 90) 2000 ''b:entry:u'' colliding_redis) = None
   \<and> storage_delete 2000 ''b:entry:u'' (RedisStorage (sample_redis_config ''a'' 10 90) colliding_redis)
       \<noteq> RedisStorage (sample_redis_config ''a'' 10 90) colliding_redis"
proof -
  let ?a = "sample_redis_config ''a'' 10 90" and ?owner = "sample_redis_config ''a:entry:b'' 10 90"
  have same_key: "memoryKey ?a ''b:entry:u'' = memoryKey ?owner ''u''"
    by (simp add: memoryKey_def redis_prefix_def sample_redis_config_def)
  have stored: "entries colliding_redis (memoryKey ?owner ''u'')
      = Some ((sample_row ''a:entry:b'' ''u'' ''note'' 0.5 None 1000), Some 7776001000)"
    by (simp add: colliding_redis_def store_on_def sample_row_def redis_eval)
  have no_vector: "embeddings colliding_redis = (\<lambda>k. None)"
    by (simp add: colliding_redis_def store_on_def sample_row_def redis_eval)
  have get_a: "redis_get ?a 2000 ''b:entry:u'' colliding_redis = Some (sample_row ''a:entry:b'' ''u'' ''note'' 0.5 None 1000)"
    by (simp add: redis_get_def same_key stored no_vector live_def)
  have get_owner: "redis_get ?owner 2000 ''u'' colliding_redis = Some (sample_row ''a:entry:b'' ''u'' ''note'' 0.5 None 1000)"
    by (simp add: redis_get_def stored no_vector live_def)
  have deleted: "entries (redis_delete ?a 2000 ''b:entry:u'' colliding_redis) (memoryKey ?owner ''u'') = None"
    by (simp add: redis_delete_def get_a Let_def same_key)
  have updated: "map_option content (redis_get ?owner 2000 ''u''
        (redis_update ?a 2000 ''b:entry:u'' sample_updates colliding_redis)) = Some ''changed''"
    using stored
    by (simp add: redis_update_def get_a Let_def same_key [symmetric] redis_get_def set_keepttl_def live_def
          apply_updates_def merge_updates_def sample_updates_def no_vector sample_row_def)
  have gone: "redis_get ?owner 2000 ''u'' (redis_delete ?a 2000 ''b:entry:u'' colliding_redis) = None"
    using deleted by (simp add: redis_get_def live_def)
  have changed: "redis_delete ?a 2000 ''b:entry:u'' colliding_redis \<noteq> colliding_redis"
    using deleted stored by auto
  show ?thesis
    using get_a get_owner updated gone changed by (simp add: sample_row_def)
qed

subsection \<open>Ranking by similarity\<close>

lemma is_number_conv: "is_number s \<longleftrightarrow> (\<exists>x. s = Number x)"
  by (cases s) auto

lemma js_geq_trans: "js_geq a b \<Longrightarrow> js_geq b c \<Longrightarrow> js_geq a c"
  by (cases a; cases b; cases c) auto

lemma by_similarity_desc_numbers:
  "is_number (snd x) \<Longrightarrow> is_number (snd y) \<Longrightarrow>
   js_positive (by_similarity_desc x y) \<longleftrightarrow> \<not> js_geq (snd x) (snd y)"
  by (auto simp: by_similarity_desc_def is_number_conv)

lemma js_geq_total: "is_number a \<Longrightarrow> is_number b \<Longrightarrow> \<not> js_geq a b \<Longrightarrow> js_geq b a"
  by (auto simp: is_number_conv)

lemma sorted_js_insert:
  assumes "is_number (snd x)" and "\<forall>y\<in>set ys. is_number (snd y)"
    and "sorted_wrt (\<lambda>a b. js_geq (snd a) (snd b)) ys"
  shows "sorted_wrt (\<lambda>a b. js_geq (snd a) (snd b)) (js_insert by_similarity_desc x ys)"
  using assms
proof (induction ys)
  case Nil
  show ?case by simp
next
  case (Cons y ys)
  show ?case
  proof (cases "js_positive (by_similarity_desc x y)")
    case True
    then have "js_geq (snd y) (snd x)"
      using Cons.prems by (auto simp: by_similarity_desc_numbers dest: js_geq_total)
    then show ?thesis
      using True Cons by auto
  next
    case False
    then have xy: "js_geq (snd x) (snd y)"
      using Cons.prems by (auto simp: by_similarity_desc_numbers)
    then have "\<forall>z\<in>set ys. js_geq (snd x) (snd z)"
      using Cons.prems(3) by (auto intro: js_geq_trans)
    then show ?thesis
      using False xy Cons.prems(3) by auto
  qed
qed

lemma sorted_js_sort:
  "\<forall>x\<in>set xs. is_number (snd x) \<Longrightarrow>
   sorted_wrt (\<lambda>a b. js_geq (snd a) (snd b)) (js_sort by_similarity_desc xs)"
proof (induction xs)
  case Nil
  show ?case by simp
next
  case (Cons x xs)
  have "sorted_wrt (\<lambda>a b. js_geq (snd a) (snd b)) (js_insert by_similarity_desc x (js_sort by_similarity_desc xs))"
    using Cons by (intro sorted_js_insert) auto
  then show ?case by simp
qed

lemma sorted_wrt_similarity:
  assumes "sorted_wrt (\<lambda>a b. js_geq (snd a) (snd b)) xs" and "\<forall>x\<in>set xs. f x = snd x"
  shows "sorted_wrt (\<lambda>a b. js_geq (f a) (f b)) xs"
proof (rule sorted_wrt_mono_rel [OF _ assms(1)])
  fix x y
  assume "x \<in> set xs" "y \<in> set xs" "js_geq (snd x) (snd y)"
  then show "js_geq (f x) (f y)" using assms(2) by simp
qed

lemma sorted_wrt_take: "sorted_wrt P xs \<Longrightarrow> sorted_wrt P (take n xs)"
  by (metis append_take_drop_id sorted_wrt_append)

lemma sorted_wrt_filter': "sorted_wrt P xs \<Longrightarrow> sorted_wrt P (filter Q xs)"
  by (induction xs) auto

lemma sqlite_ranked:
  assumes "\<forall>r\<in>set (sqlite_candidates cfg opts t). is_number (similarity_to q r)"
  shows "sorted_wrt (\<lambda>a b. js_geq (similarity_to q a) (similarity_to q b))
           (snd (sqlite_searchByEmbedding cfg now q opts t))"
proof -
  let ?scored = "map (\<lambda>row. (row, cosineSimilarity q (embedding_of row))) (sqlite_candidates cfg opts t)"
  let ?top = "take (effective_limit opts) (js_sort by_similarity_desc ?scored)"
  have "\<forall>x\<in>set ?scored. is_number (snd x)"
    using assms by (auto simp: similarity_to_def)
  then have sorted: "sorted_wrt (\<lambda>a b. js_geq (snd a) (snd b)) ?top"
    by (intro sorted_wrt_take sorted_js_sort)
  have same: "\<forall>x\<in>set ?top. similarity_to q (fst x) = snd x"
    by (auto simp: similarity_to_def dest!: in_set_takeD)
  have "sorted_wrt (\<lambda>a b. js_geq (similarity_to q (fst a)) (similarity_to q (fst b))) ?top"
    by (rule sorted_wrt_similarity [where f = "\<lambda>x. similarity_to q (fst x)", OF sorted same])
  then show ?thesis
    by (simp add: sqlite_searchByEmbedding_result sorted_wrt_map)
qed

lemma length_sqlite_candidates: "length (sqlite_candidates cfg opts t) \<le> 100"
  by (simp add: sqlite_candidates_def)

lemma length_map_filter_le: "length (List.map_filter f xs) \<le> length xs"
  by (induction xs) (auto split: option.splits)

lemma length_redis_scored: "length (redis_scored cfg now q opts db) \<le> 101"
  using length_map_filter_le [of "redis_score cfg now q opts db" "zrevrange (search_index cfg opts db) 0 100"]
    length_redis_range [of 100 "rev (zmembers (search_index cfg opts db))"]
  by (simp add: redis_scored_def zrevrange_def)

lemma redis_scored_embedding:
  assumes "(i, s) \<in> set (redis_scored cfg now q opts db)" and "redis_get cfg now i db = Some e"
  shows "similarity_to q e = s"
proof -
  obtain j where "redis_score cfg now q opts db j = Some (i, s)"
    using assms(1) by (auto simp: redis_scored_def set_map_filter_iff)
  then obtain v where "live now (embeddings db (embeddingKey cfg i)) = Some v" "s = cosineSimilarity q v"
    by (auto dest: redis_score_SomeD)
  then show ?thesis
    using assms(2) by (auto simp: similarity_to_def embedding_of_def redis_get_def split: option.splits)
qed

lemma redis_ranked:
  assumes wf: "redis_wf cfg db" and num: "\<forall>x\<in>set (redis_scored cfg now q opts db). is_number (snd x)"
  shows "sorted_wrt (\<lambda>a b. js_geq (similarity_to q a) (similarity_to q b))
           (snd (redis_searchByEmbedding cfg now q opts db))"
proof -
  let ?top = "take (effective_limit opts) (js_sort by_similarity_desc (redis_scored cfg now q opts db))"
  let ?live = "filter (\<lambda>x. redis_get cfg now (fst x) db \<noteq> None) ?top"
  have d: "distinct (map fst ?top)" using redis_top_ids_distinct [OF wf] .
  have rs: "snd (redis_searchByEmbedding cfg now q opts db)
              = List.map_filter (\<lambda>i. redis_get cfg now i db) (map fst ?top)"
    using surface_distinct [OF d, of cfg now db] by (simp add: redis_searchByEmbedding_def)
  have conv: "List.map_filter (\<lambda>i. redis_get cfg now i db) (map fst xs)
      = map (\<lambda>x. the (redis_get cfg now (fst x) db)) (filter (\<lambda>x. redis_get cfg now (fst x) db \<noteq> None) xs)" for xs
    by (induction xs) (auto split: option.splits)
  have sorted: "sorted_wrt (\<lambda>a b. js_geq (snd a) (snd b)) ?live"
    using num by (intro sorted_wrt_filter' sorted_wrt_take sorted_js_sort)
  have same: "\<forall>x\<in>set ?live. similarity_to q (the (redis_get cfg now (fst x) db)) = snd x"
  proof
    fix x
    assume "x \<in> set ?live"
    then have "(fst x, snd x) \<in> set (redis_scored cfg now q opts db)"
      and "redis_get cfg now (fst x) db = Some (the (redis_get cfg now (fst x) db))"
      by (auto dest!: in_set_takeD)
    then show "similarity_to q (the (redis_get cfg now (fst x) db)) = snd x"
      by (rule redis_scored_embedding)
  qed
  have "sorted_wrt (\<lambda>a b. js_geq (similarity_to q (the (redis_get cfg now (fst a) db)))
                             (similarity_to q (the (redis_get cfg now (fst b) db)))) ?live"
    by (rule sorted_wrt_similarity
          [where f = "\<lambda>x. similarity_to q (the (redis_get cfg now (fst x) db))", OF sorted same])
  then show ?thesis
    by (simp add: rs conv sorted_wrt_map)
qed

lemma length_sqlite_searchByEmbedding:
  "length (snd (sqlite_searchByEmbedding cfg now q opts t)) \<le> effective_limit opts"
  by (simp add: sqlite_searchByEmbedding_result)

lemma length_surface: "length (snd (surface cfg now ids db)) \<le> length ids"
  by (induction ids arbitrary: db) (auto split: option.splits simp: case_prod_unfold Let_def le_SucI)

lemma length_redis_searchByEmbedding:
  "length (snd (redis_searchByEmbedding cfg now q opts db)) \<le> effective_limit opts"
  using length_surface [of cfg now "map fst (take (effective_limit opts)
      (js_sort by_similarity_desc (redis_scored cfg now q opts db)))" db]
  by (simp add: redis_searchByEmbedding_def)

text \<open>
  On either backend the pool that \<^verbatim>\<open>searchByEmbedding\<close> ranks has at most 101 entries
  (100 on SQLite), whatever the size of the store; and on a well-formed store whose pool
  has numbers for scores, the entries returned are at most \<^verbatim>\<open>limit\<close> and are in
  descending order of their cosine similarity to the query.
\<close>

lemma searchByEmbedding_ranks_numeric_pool:
  assumes "storage_wf st" and "\<forall>s\<in>set (candidate_scores now q opts st). is_number s"
  shows "length (candidate_scores now q opts st) \<le> 101
       \<and> length (snd (storage_searchByEmbedding now q opts st)) \<le> effective_limit opts
       \<and> sorted_wrt (\<lambda>a b. js_geq (similarity_to q a) (similarity_to q b))
           (snd (storage_searchByEmbedding now q opts st))"
proof (cases st)
  case (RedisStorage cfg db)
  then show ?thesis
    using assms redis_ranked [of cfg db now q opts] length_redis_scored [of cfg now q opts db]
      length_redis_searchByEmbedding [of cfg now q opts db]
    by (simp add: case_prod_unfold Let_def)
next
  case (SqliteStorage cfg t)
  then show ?thesis
    using assms sqlite_ranked [of cfg opts t q now] length_sqlite_candidates [of cfg opts t]
      length_sqlite_searchByEmbedding [of cfg now q opts t]
    by (simp add: case_prod_unfold Let_def)
qed

lemma cosine_axis_vectors:
  "cosineSimilarity [1, 0] [1, 0] = Number 1" "cosineSimilarity [1, 0] [0, 1] = Number 0"
  "cosineSimilarity [1, 0] [0, 0] = NaN"
  by (simp_all add: cosineSimilarity_def js_divide_def)

lemma effective_limit_no_options: "effective_limit no_options = 10"
  by (simp add: effective_limit_def no_options_def)

text \<open>
  With the vectors \<^verbatim>\<open>[0,1]\<close> and \<^verbatim>\<open>[1,0]\<close> stored, the first for the more important entry,
  the query \<^verbatim>\<open>[1,0]\<close> ranks the entry of \<^verbatim>\<open>[1,0]\<close> ahead of the other.
\<close>

lemma two_vector_candidates:
  "sqlite_candidates (sample_config ''p'' 10 90) no_options two_vector_table = two_vector_table"
  by (simp add: sqlite_candidates_def two_vector_table_def sample_row_def sample_config_def
      in_project_def type_ok_def importance_ok_def no_options_def important_order_def)

lemma searchByEmbedding_ranks_axis_vectors:
  "ranked_scores [1, 0]
     (snd (sqlite_searchByEmbedding (sample_config ''p'' 10 90) 1000 [1, 0] no_options two_vector_table))
   = [(''first'', Number 1), (''second'', Number 0)]"
  by (simp add: sqlite_searchByEmbedding_result two_vector_candidates effective_limit_no_options)
    (simp add: two_vector_table_def sample_row_def embedding_of_def cosine_axis_vectors
      by_similarity_desc_def ranked_scores_def similarity_to_def)

lemma three_vector_candidates:
  "sqlite_candidates (sample_config ''p'' 10 90) no_options three_vector_table = three_vector_table"
  by (simp add: sqlite_candidates_def three_vector_table_def sample_row_def sample_config_def
      in_project_def type_ok_def importance_ok_def no_options_def important_order_def)

lemma three_vector_sqlite:
  "ranked_scores [1, 0]
     (snd (sqlite_searchByEmbedding (sample_config ''p'' 10 90) 4000 [1, 0] no_options three_vector_table))
   = [(''e0'', Number 0), (''e1'', NaN), (''e2'', Number 1)]"
  by (simp add: sqlite_searchByEmbedding_result three_vector_candidates effective_limit_no_options)
    (simp add: three_vector_table_def sample_row_def embedding_of_def cosine_axis_vectors
      by_similarity_desc_def ranked_scores_def similarity_to_def)

lemma three_vector_index:
  "zrevrange (index_of (sample_redis_config ''p'' 10 90) ''all'' three_vector_redis) 0 100
     = [''e0'', ''e1'', ''e2'']"
  by (simp add: three_vector_redis_def store_on_def sample_row_def redis_eval zrevrange_def
      zmembers_def redis_range_def)

lemma three_vector_embeddings:
  "live 4000 (embeddings three_vector_redis (embeddingKey (sample_redis_config ''p'' 10 90) ''e0'')) = Some [0, 1]"
  "live 4000 (embeddings three_vector_redis (embeddingKey (sample_redis_config ''p'' 10 90) ''e1'')) = Some [0, 0]"
  "live 4000 (embeddings three_vector_redis (embeddingKey (sample_redis_config ''p'' 10 90) ''e2'')) = Some [1, 0]"
  by (simp_all add: three_vector_redis_def store_on_def sample_row_def redis_eval)

lemma three_vector_entries:
  "map_option (\<lambda>e. (entry_id e, importance e, embedding e))
     (redis_get (sample_redis_config ''p'' 10 90) 4000 ''e0'' three_vector_redis) = Some (''e0'', 0.5, Some [0, 1])"
  "map_option (\<lambda>e. (entry_id e, importance e, embedding e))
     (redis_get (sample_redis_config ''p'' 10 90) 4000 ''e1'' three_vector_redis) = Some (''e1'', 0.5, Some [0, 0])"
  "map_option (\<lambda>e. (entry_id e, importance e, embedding e))
     (redis_get (sample_redis_config ''p'' 10 90) 4000 ''e2'' three_vector_redis) = Some (''e2'', 0.5, Some [1, 0])"
  by (simp_all add: three_vector_redis_def store_on_def sample_row_def redis_eval)

lemma three_vector_scored:
  "redis_scored (sample_redis_config ''p'' 10 90) 4000 [1, 0] no_options three_vector_redis
     = [(''e0'', Number 0), (''e1'', NaN), (''e2'', Number 1)]"
proof -
  have "redis_score (sample_redis_config ''p'' 10 90) 4000 [1, 0] no_options three_vector_redis ''e0''
          = Some (''e0'', Number 0)"
    and "redis_score (sample_redis_config ''p'' 10 90) 4000 [1, 0] no_options three_vector_redis ''e1''
          = Some (''e1'', NaN)"
    and "redis_score (sample_redis_config ''p'' 10 90) 4000 [1, 0] no_options three_vector_redis ''e2''
          = Some (''e2'', Number 1)"
    by (simp_all add: redis_score_def three_vector_embeddings cosine_axis_vectors importance_ok_def
        no_options_def split: option.splits)
  then show ?thesis
    by (simp add: redis_scored_def search_index_def no_options_def three_vector_index
        List.map_filter_def)
qed

lemma three_vector_redis_result:
  "ranked_scores [1, 0]
     (snd (redis_searchByEmbedding (sample_redis_config ''p'' 10 90) 4000 [1, 0] no_options three_vector_redis))
   = [(''e0'', Number 0), (''e1'', NaN), (''e2'', Number 1)]"
proof -
  let ?cfg = "sample_redis_config ''p'' 10 90"
  have ids: "map fst (take (effective_limit no_options)
               (js_sort by_similarity_desc (redis_scored ?cfg 4000 [1, 0] no_options three_vector_redis)))
             = [''e0'', ''e1'', ''e2'']"
    by (simp add: three_vector_scored effective_limit_no_options by_similarity_desc_def)
  have "snd (redis_searchByEmbedding ?cfg 4000 [1, 0] no_options three_vector_redis)
          = List.map_filter (\<lambda>i. redis_get ?cfg 4000 i three_vector_redis) [''e0'', ''e1'', ''e2'']"
    unfolding redis_searchByEmbedding_def ids by (subst surface_distinct) simp_all
  then show ?thesis
    using three_vector_entries
    by (auto simp: List.map_filter_def ranked_scores_def similarity_to_def embedding_of_def
        cosine_axis_vectors)
qed

text \<open>
  C5. The comment in either \<^verbatim>\<open>searchByEmbedding\<close> says that the pool is sorted by
  similarity, yet an entry whose vector is all zeros has the score \<^verbatim>\<open>NaN\<close>, every
  comparison with it is \<^verbatim>\<open>NaN\<close>, and the sort leaves the pool in the order it was fetched
  in: with the vectors \<^verbatim>\<open>[0,1]\<close>, \<^verbatim>\<open>[0,0]\<close> and \<^verbatim>\<open>[1,0]\<close> stored (under the ids \<^verbatim>\<open>e0\<close>,
  \<^verbatim>\<open>e1\<close>, \<^verbatim>\<open>e2\<close>) and the query \<^verbatim>\<open>[1,0]\<close>, either backend returns the entry of similarity
  0 first and the entry of similarity 1 last.
\<close>

theorem searchByEmbedding_misranks_beside_zero_vector:
  "ranked_scores [1, 0]
     (snd (storage_searchByEmbedding 4000 [1, 0] no_options
        (SqliteStorage (sample_config ''p'' 10 90) three_vector_table)))
     = [(''e0'', Number 0), (''e1'', NaN), (''e2'', Number 1)]
   \<and> ranked_scores [1, 0]
     (snd (storage_searchByEmbedding 4000 [1, 0] no_options
        (RedisStorage (sample_redis_config ''p'' 10 90) three_vector_redis)))
     = [(''e0'', Number 0), (''e1'', NaN), (''e2'', Number 1)]"
  using three_vector_sqlite three_vector_redis_result
  by (simp add: case_prod_unfold Let_def)

subsection \<open>The context for a query\<close>

lemma set_first_occurrences: "entry_id ` set (first_occurrences ms) = entry_id ` set ms"
  by (induction ms rule: first_occurrences.induct) auto

lemma distinct_first_occurrences: "distinct (map entry_id (first_occurrences ms))"
proof (induction ms rule: first_occurrences.induct)
  case 1
  show ?case by simp
next
  case (2 m ms)
  have "entry_id m \<notin> entry_id ` set (filter (\<lambda>x. entry_id x \<noteq> entry_id m) ms)"
    by auto
  then show ?case
    using 2 by (simp add: set_first_occurrences)
qed

lemma deduplicate_first_occurrences:
  "deduplicate ms seen acc = acc @ first_occurrences (filter (\<lambda>m. entry_id m \<notin> seen) ms)"
proof (induction ms arbitrary: seen acc)
  case Nil
  show ?case by simp
next
  case (Cons m ms)
  have "filter (\<lambda>x. entry_id x \<notin> insert (entry_id m) seen) ms
          = filter (\<lambda>x. entry_id x \<noteq> entry_id m) (filter (\<lambda>x. entry_id x \<notin> seen) ms)"
    by (auto intro: filter_cong)
  then show ?case
    using Cons by simp
qed

lemma first_occurrences_append:
  "first_occurrences (xs @ ys)
     = first_occurrences xs @ first_occurrences (filter (\<lambda>m. entry_id m \<notin> entry_id ` set xs) ys)"
proof (induction xs arbitrary: ys rule: first_occurrences.induct)
  case 1
  show ?case by simp
next
  case (2 x xs)
  let ?keep = "\<lambda>m. entry_id m \<noteq> entry_id x"
  have "filter (\<lambda>m. entry_id m \<notin> entry_id ` set (filter ?keep xs)) (filter ?keep ys)
          = filter (\<lambda>m. entry_id m \<notin> entry_id ` set (x # xs)) ys"
    by (auto intro: filter_cong)
  then show ?case
    using 2 [of "filter ?keep ys"] by simp
qed

lemma storage_projectId_searchByEmbedding [simp]:
  "storage_projectId (fst (storage_searchByEmbedding now v opts st)) = storage_projectId st"
  by (cases st) (simp_all add: case_prod_unfold Let_def)

lemma storage_projectId_searchByKeyword [simp]:
  "storage_projectId (fst (storage_searchByKeyword now q opts st)) = storage_projectId st"
  by (cases st) (simp_all add: case_prod_unfold Let_def)

lemma storage_projectId_getImportant [simp]:
  "storage_projectId (fst (storage_getImportant now n st)) = storage_projectId st"
  by (cases st) simp_all

lemma length_keyword_scan:
  "length results \<le> effective_limit opts \<Longrightarrow>
   length (snd (keyword_scan cfg now queryLower opts ids results db)) \<le> effective_limit opts"
  by (induction ids arbitrary: results db) (auto split: option.splits)

lemma length_storage_searchByKeyword:
  "length (snd (storage_searchByKeyword now q opts st)) \<le> effective_limit opts"
proof (cases st)
  case (RedisStorage cfg db)
  then show ?thesis
    using length_keyword_scan [where results = "[]" and opts = opts and cfg = cfg and now = now
        and queryLower = "toLowerCase q" and ids = "zrevrange (search_index cfg opts db) 0 500" and db = db]
    by (simp add: case_prod_unfold Let_def redis_searchByKeyword_def)
next
  case (SqliteStorage cfg t)
  then show ?thesis
    by (simp add: case_prod_unfold Let_def sqlite_searchByKeyword_def sqlite_keyword_rows_def)
qed

lemma length_storage_searchByEmbedding:
  "length (snd (storage_searchByEmbedding now v opts st)) \<le> effective_limit opts"
proof (cases st)
  case (RedisStorage cfg db)
  then show ?thesis
    using length_redis_searchByEmbedding [of cfg now v opts db]
    by (simp add: case_prod_unfold Let_def)
next
  case (SqliteStorage cfg t)
  then show ?thesis
    by (simp add: case_prod_unfold Let_def sqlite_searchByEmbedding_result)
qed

lemma length_pm_search: "length (snd (pm_search now query opts pm)) \<le> effective_limit opts"
  using length_storage_searchByKeyword [of now query opts "pm_storage pm"]
    length_storage_searchByEmbedding [of now _ opts "pm_storage pm"]
  by (simp add: pm_search_def case_prod_unfold Let_def split: option.splits)

lemma length_get_each: "length (get_each cfg now db ids) \<le> length ids"
  by (simp add: get_each_def length_map_filter_le)

text \<open>
  \<^verbatim>\<open>getImportant\<close> with a positive limit; on Redis the limit 0 asks for the ranks 0 to -1,
  which is the whole index.
\<close>

lemma length_storage_getImportant:
  assumes "0 < n"
  shows "length (snd (storage_getImportant now (Some n) st)) \<le> n"
proof (cases st)
  case (RedisStorage cfg db)
  then show ?thesis
    using assms length_get_each [of cfg now db "zrevrange (index_of cfg ''importance'' db) 0 (int n - 1)"]
      length_redis_range [of "int n - 1" "rev (zmembers (index_of cfg ''importance'' db))"]
    by (simp add: default_limit_def redis_getImportant_def zrevrange_def)
next
  case (SqliteStorage cfg t)
  then show ?thesis
    by (simp add: default_limit_def sqlite_getImportant_def)
qed

lemma pm_projectId_search:
  "storage_projectId (pm_storage (fst (pm_search now query opts pm))) = storage_projectId (pm_storage pm)"
  by (simp add: pm_search_def case_prod_unfold Let_def split: option.splits)

lemma pm_projectId_getImportant:
  "storage_projectId (pm_storage (fst (pm_getImportant now n pm))) = storage_projectId (pm_storage pm)"
  by (simp add: pm_getImportant_def case_prod_unfold Let_def)

text \<open>
  C6. \<^verbatim>\<open>getContextForQuery\<close> searches with limit 5 and then asks for the 3 most important
  entries, so it has at most 5 relevant and at most 3 important entries. Its list is
  their concatenation de-duplicated by id with the first occurrence winning: the relevant
  entries come first, then the important ones whose id is not among them; no id occurs
  twice and no id is lost. The string returned is empty if both lists are empty, and
  otherwise the header naming the project followed by one line per entry, each beginning
  with a dash, joined by newlines.
\<close>

theorem getContextForQuery_merges_first_occurrences:
  assumes "pm_search now query limit_five pm = (pm1, relevant)"
    and "pm_getImportant now (Some 3) pm1 = (pm2, important)"
  shows "length relevant \<le> 5 \<and> length important \<le> 3
       \<and> deduplicate (relevant @ important) {} [] = first_occurrences (relevant @ important)
       \<and> deduplicate (relevant @ important) {} []
           = first_occurrences relevant
               @ first_occurrences (filter (\<lambda>m. entry_id m \<notin> entry_id ` set relevant) important)
       \<and> distinct (map entry_id (deduplicate (relevant @ important) {} []))
       \<and> entry_id ` set (deduplicate (relevant @ important) {} []) = entry_id ` (set relevant \<union> set important)
       \<and> pm_getContextForQuery now query pm
           = (pm2,
              if relevant = [] \<and> important = [] then []
              else join [CHR 0x0A] (context_header (storage_projectId (pm_storage pm))
                     # map context_line (deduplicate (relevant @ important) {} [])))
       \<and> take 2 (context_line m) = ''- ''"
proof -
  have five: "length relevant \<le> 5"
    using length_pm_search [of now query limit_five pm] assms(1)
    by (simp add: effective_limit_def limit_five_def)
  have three: "length important \<le> 3"
    using length_storage_getImportant [of 3 now "pm_storage pm1"] assms(2)
    by (auto simp: pm_getImportant_def case_prod_unfold Let_def)
  have dedup: "deduplicate (relevant @ important) {} [] = first_occurrences (relevant @ important)"
    by (simp add: deduplicate_first_occurrences)
  have pid: "storage_projectId (pm_storage pm2) = storage_projectId (pm_storage pm)"
    using pm_projectId_search [of now query limit_five pm] pm_projectId_getImportant [of now "Some 3" pm1]
      assms
    by simp
  have empty: "first_occurrences (relevant @ important) = [] \<longleftrightarrow> relevant = [] \<and> important = []"
    using set_first_occurrences [of "relevant @ important"] by (cases relevant; cases important) auto
  have "pm_getContextForQuery now query pm
          = (pm2, render_context (storage_projectId (pm_storage pm2)) (deduplicate (relevant @ important) {} []))"
    using assms by (simp add: pm_getContextForQuery_def limit_five_def)
  then have rendered: "pm_getContextForQuery now query pm
           = (pm2,
              if relevant = [] \<and> important = [] then []
              else join [CHR 0x0A] (context_header (storage_projectId (pm_storage pm))
                     # map context_line (deduplicate (relevant @ important) {} [])))"
    using empty by (simp add: render_context_def pid dedup)
  have dash: "take 2 (context_line m) = ''- ''"
    by (simp add: context_line_def)
  show ?thesis
    using five three rendered dash
    by (simp add: dedup first_occurrences_append [symmetric] distinct_first_occurrences
        set_first_occurrences image_Un)
qed

theorem getContextForQuery_merges_first_occurrences_witness:
  "pm_search 500 ''postgresql'' limit_five keyword_memory
     = (keyword_memory_searched,
        [sample_row ''p'' ''a'' ''Using PostgreSQL for JSONB support'' 0.5 None 100])
   \<and> pm_getImportant 500 (Some 3) keyword_memory_searched
     = (keyword_memory_searched,
        [sample_row ''p'' ''b'' ''Redis for caching'' 0.9 None 200,
         surfaced 500 (sample_row ''p'' ''a'' ''Using PostgreSQL for JSONB support'' 0.5 None 100)])
   \<and> pm_getContextForQuery 500 ''postgresql'' keyword_memory
     = (keyword_memory_searched,
        ''Project knowledge for '' @ [CHR 0x22] @ ''p'' @ [CHR 0x22] @ '':'' @ [CHR 0x0A]
          @ ''- [context] Using PostgreSQL for JSONB support'' @ [CHR 0x0A]
          @ ''- [context] Redis for caching'')"
proof -
  let ?a = "sample_row ''p'' ''a'' ''Using PostgreSQL for JSONB support'' 0.5 None 100"
  let ?b = "sample_row ''p'' ''b'' ''Redis for caching'' 0.9 None 200"
  have found: "like_match (keyword_pattern ''postgresql'') ''Using PostgreSQL for JSONB support''"
    by (subst like_match_contains) (simp_all add: lower_eval)
  have missed: "\<not> like_match (keyword_pattern ''postgresql'') ''Redis for caching''"
    by (subst like_match_contains) (simp_all add: lower_eval)
  have search: "pm_search 500 ''postgresql'' limit_five keyword_memory = (keyword_memory_searched, [?a])"
    using found missed
    by (simp add: pm_search_def embedQuery_def keyword_memory_def keyword_memory_searched_def
          limit_five_def keyword_table_def sqlite_searchByKeyword_def sqlite_keyword_rows_def
          sqlite_incrementAccess_def surfaced_def in_project_def type_ok_def importance_ok_def
          effective_limit_def sample_config_def sample_row_def)
  have important: "pm_getImportant 500 (Some 3) keyword_memory_searched
                     = (keyword_memory_searched, [?b, surfaced 500 ?a])"
    by (simp add: pm_getImportant_def keyword_memory_searched_def default_limit_def
          sqlite_getImportant_def in_project_def important_order_def surfaced_def sample_row_def
          sample_config_def)
  have merged: "deduplicate ([?a] @ [?b, surfaced 500 ?a]) {} [] = [?a, ?b]"
    by (simp add: surfaced_def sample_row_def)
  have project: "storage_projectId (pm_storage keyword_memory) = ''p''"
    by (simp add: keyword_memory_def sample_config_def)
  show ?thesis
    using search important
      getContextForQuery_merges_first_occurrences [OF search important]
    unfolding merged project
    by (simp add: context_header_def context_line_def join_def sample_row_def)
qed

subsection \<open>Keyword search\<close>












subsection \<open>Eviction over the count limit\<close>





lemma evicted_rows_lowest:
  assumes "r \<in> set (evicted_rows cfg t)" and "s \<in> set t" and "in_project cfg s"
    and "s \<notin> set (evicted_rows cfg t)"
  shows "eviction_order r \<le> eviction_order s"
proof -
  let ?S = "sort_key eviction_order (filter (in_project cfg) t)"
  let ?n = "sqlite_getCount cfg t - effective_maxMemories cfg + 100"
  have "s \<in> set ?S" using assms(2,3) by simp
  then have "s \<in> set (take ?n ?S) \<union> set (drop ?n ?S)"
    by (simp only: set_append [symmetric] append_take_drop_id)
  then have s: "s \<in> set (drop ?n ?S)"
    using assms(4) by (simp add: evicted_rows_def)
  have "sorted (map eviction_order (take ?n ?S @ drop ?n ?S))"
    by (simp only: append_take_drop_id) simp
  then have "\<forall>x\<in>set (take ?n ?S). \<forall>y\<in>set (drop ?n ?S). eviction_order x \<le> eviction_order y"
    by (simp only: map_append sorted_append) auto
  then show ?thesis
    using assms(1) s by (simp add: evicted_rows_def)
qed










end
